theory Spec2Isabelle
  imports Main "HOL-Library.AList"
begin

section \<open>Strings and character classes\<close>

text \<open>
  A Python \<open>str\<close> is modelled as a \<open>string\<close>: a list of 8-bit characters, each read as the
  code point of the same number (U+0000 to U+00FF). The character classes below are the ones
  Python's \<open>re\<close> module uses for \<open>str\<close> patterns, restricted to that range: \<open>\d\<close> is the
  decimal digits, \<open>\w\<close> is the alphanumeric characters and the underscore, \<open>\s\<close> is
  the white space characters.
\<close>

definition is_digit :: "char \<Rightarrow> bool" where
  "is_digit c = (c \<in> set ''0123456789'')"

definition is_ascii_alpha :: "char \<Rightarrow> bool" where
  "is_ascii_alpha c =
     (c \<in> set ''abcdefghijklmnopqrstuvwxyzABCDEFGHIJKLMNOPQRSTUVWXYZ'')"

definition is_latin1_alnum :: "char \<Rightarrow> bool" where
  "is_latin1_alnum c =
     (let n = (of_char c :: nat) in
        n \<in> {0xAA, 0xB2, 0xB3, 0xB5, 0xB9, 0xBA, 0xBC, 0xBD, 0xBE}
        \<or> (0xC0 \<le> n \<and> n \<le> 0xD6) \<or> (0xD8 \<le> n \<and> n \<le> 0xF6) \<or> 0xF8 \<le> n)"

definition is_word :: "char \<Rightarrow> bool" where
  "is_word c = (is_ascii_alpha c \<or> is_digit c \<or> c = CHR ''_'' \<or> is_latin1_alnum c)"

definition is_space :: "char \<Rightarrow> bool" where
  "is_space c =
     ((of_char c :: nat) \<in> {0x09, 0x0A, 0x0B, 0x0C, 0x0D, 0x1C, 0x1D, 0x1E, 0x1F, 0x20, 0x85, 0xA0})"

definition newline :: char where
  "newline = CHR 0x0A"

section \<open>The regular expression matcher\<close>

text \<open>
  The constructs that \<open>log_pattern\<close> uses, with the backtracking semantics of \<open>re\<close>:
  \<open>run r st\<close> lists every way \<open>r\<close> can match at the state \<open>st\<close>, in the order the
  matcher tries them (the left alternative first, the longest repetition first). A state is
  the text before the position (reversed), the text after it and the groups captured so far.
\<close>

datatype regex =
    Lit string
  | OneOrMore "char \<Rightarrow> bool"
  | Exactly nat "char \<Rightarrow> bool"
  | Alt regex regex
  | Seq "regex list"
  | Group string regex
  | WordBoundary
  | EndAnchor

type_synonym groups = "(string \<times> string) list"
type_synonym mstate = "string \<times> string \<times> groups"

definition at_word :: "string \<Rightarrow> bool" where
  "at_word s = (case s of [] \<Rightarrow> False | c # _ \<Rightarrow> is_word c)"

definition advance :: "nat \<Rightarrow> mstate \<Rightarrow> mstate" where
  "advance k st = (case st of (b, s, g) \<Rightarrow> (rev (take k s) @ b, drop k s, g))"

definition capture :: "string \<Rightarrow> string \<Rightarrow> mstate \<Rightarrow> mstate" where
  "capture name s st =
     (case st of (b', s', g') \<Rightarrow> (b', s', AList.update name (take (length s - length s') s) g'))"

fun run :: "regex \<Rightarrow> mstate \<Rightarrow> mstate list" where
  "run (Lit l) st =
     (if take (length l) (fst (snd st)) = l then [advance (length l) st] else [])"
| "run (OneOrMore p) st =
     map (\<lambda>k. advance k st) (rev [1 ..< Suc (length (takeWhile p (fst (snd st))))])"
| "run (Exactly n p) st =
     (if n \<le> length (fst (snd st)) \<and> list_all p (take n (fst (snd st)))
      then [advance n st] else [])"
| "run (Alt r1 r2) st = run r1 st @ run r2 st"
| "run (Seq []) st = [st]"
| "run (Seq (r # rs)) st = concat (map (run (Seq rs)) (run r st))"
| "run (Group name r) st = map (capture name (fst (snd st))) (run r st)"
| "run WordBoundary st =
     (if at_word (fst st) \<noteq> at_word (fst (snd st)) then [st] else [])"
| "run EndAnchor st =
     (if fst (snd st) = [] \<or> fst (snd st) = [newline] then [st] else [])"

text \<open>\<open>pattern.match(line)\<close>: the first match starting at position 0, as its \<open>groupdict()\<close>.\<close>

definition match_groupdict :: "regex \<Rightarrow> string \<Rightarrow> groups option" where
  "match_groupdict r line =
     (case run r ([], line, []) of [] \<Rightarrow> None | st # _ \<Rightarrow> Some (snd (snd st)))"

definition log_pattern :: regex where
  \<open>log_pattern = Seq [
     Group ''ip''
       (Alt (Seq [OneOrMore is_digit, Lit ''.'', OneOrMore is_digit, Lit ''.'',
                  OneOrMore is_digit, Lit ''.'', OneOrMore is_digit])
            (Seq [WordBoundary, Lit ''NULL'', WordBoundary])),
     Lit '' - - ['',
     Group ''timestamp'' (OneOrMore (\<lambda>c. c \<noteq> CHR '']'')),
     Lit ''] "'',
     Group ''method'' (OneOrMore is_word),
     Lit '' '',
     Group ''url'' (OneOrMore (\<lambda>c. \<not> is_space c)),
     Lit '' HTTP/'',
     OneOrMore (\<lambda>c. c \<noteq> CHR ''"''),
     Lit ''" '',
     Group ''status'' (Exactly 3 is_digit),
     Lit '' '',
     Group ''size'' (Alt (OneOrMore is_digit) (Lit ''-'')),
     EndAnchor]\<close>

section \<open>Splitting the request target: \<open>urllib.parse.urlparse\<close>\<close>

text \<open>
  \<open>parse_log_line\<close> hands the request target to \<open>urlparse\<close> of the standard library and
  keeps the \<open>path\<close> and \<open>query\<close> components. The model follows \<open>urlsplit\<close>,
  \<open>_splitnetloc\<close>, \<open>_splitparams\<close> and \<open>urlparse\<close> of CPython 3.11 statement by statement.
  Two of its checks are not computed here. \<open>_check_bracketed_host\<close> validates the text between
  square brackets of a network location with the \<open>ipaddress\<close> module; it is the parameter
  \<open>cbh\<close> (true where the check passes). \<open>_checknetloc\<close> raises only where NFKC
  normalisation of the network location produces one of \<open>/?#@:\<close>, which no character in
  the range U+0000 to U+00FF does, so it never raises on the strings modelled here.
\<close>

datatype error = ValueError | KeyError

record ParseResult =
  scheme :: string
  netloc :: string
  path :: string
  params :: string
  query :: string
  fragment :: string

text \<open>\<open>s.find(c, start)\<close> and \<open>s.rfind(c)\<close>, with \<open>None\<close> for \<open>-1\<close>.\<close>

definition find_from :: "char \<Rightarrow> nat \<Rightarrow> string \<Rightarrow> nat option" where
  "find_from c start s =
     (if c \<in> set (drop start s)
      then Some (start + length (takeWhile (\<lambda>x. x \<noteq> c) (drop start s))) else None)"

definition rfind :: "char \<Rightarrow> string \<Rightarrow> nat option" where
  "rfind c s =
     (if c \<in> set s then Some (length s - Suc (length (takeWhile (\<lambda>x. x \<noteq> c) (rev s))))
      else None)"

text \<open>\<open>s.split(c, 1)\<close> for a string that contains \<open>c\<close>: the text before and after the first \<open>c\<close>.\<close>

definition split_first :: "char \<Rightarrow> string \<Rightarrow> string \<times> string" where
  "split_first c s = (takeWhile (\<lambda>x. x \<noteq> c) s, drop 1 (dropWhile (\<lambda>x. x \<noteq> c) s))"

definition lstrip_c0_control_or_space :: "string \<Rightarrow> string" where
  "lstrip_c0_control_or_space s = dropWhile (\<lambda>c. (of_char c :: nat) \<le> 0x20) s"

definition remove_unsafe_bytes :: "string \<Rightarrow> string" where
  "remove_unsafe_bytes s = filter (\<lambda>c. c \<notin> {CHR 0x09, CHR 0x0D, CHR 0x0A}) s"

definition scheme_chars :: string where
  "scheme_chars = ''abcdefghijklmnopqrstuvwxyzABCDEFGHIJKLMNOPQRSTUVWXYZ0123456789+-.''"

definition ascii_lower :: "char \<Rightarrow> char" where
  "ascii_lower c =
     (if c \<in> set ''ABCDEFGHIJKLMNOPQRSTUVWXYZ'' then char_of (of_char c + (32 :: nat)) else c)"

definition uses_params :: "string list" where
  "uses_params = ['''', ''ftp'', ''hdl'', ''prospero'', ''http'', ''imap'',
                  ''https'', ''shttp'', ''rtsp'', ''rtsps'', ''rtspu'', ''sip'',
                  ''sips'', ''mms'', ''sftp'', ''tel'']"

definition splitnetloc :: "string \<Rightarrow> nat \<Rightarrow> string \<times> string" where
  "splitnetloc url start =
     (let delim = fold (\<lambda>c delim. case find_from c start url of
                                     Some wdelim \<Rightarrow> min delim wdelim
                                   | None \<Rightarrow> delim)
                       ''/?#'' (length url)
      in (take (delim - start) (drop start url), drop delim url))"

definition split_scheme :: "string \<Rightarrow> string \<times> string" where
  "split_scheme url =
     (case find_from CHR '':'' 0 url of
        Some i \<Rightarrow>
          if 0 < i \<and> is_ascii_alpha (hd url) \<and> list_all (\<lambda>c. c \<in> set scheme_chars) (take i url)
          then (map ascii_lower (take i url), drop (Suc i) url)
          else ('''', url)
      | None \<Rightarrow> ('''', url))"

definition check_netloc_brackets :: "(string \<Rightarrow> bool) \<Rightarrow> string \<Rightarrow> bool" where
  "check_netloc_brackets cbh nl =
     (if (CHR ''['' \<in> set nl \<and> CHR '']'' \<notin> set nl) \<or> (CHR '']'' \<in> set nl \<and> CHR ''['' \<notin> set nl)
      then False
      else if CHR ''['' \<in> set nl \<and> CHR '']'' \<in> set nl
      then cbh (fst (split_first CHR '']'' (snd (split_first CHR ''['' nl))))
      else True)"

definition urlsplit :: "(string \<Rightarrow> bool) \<Rightarrow> string \<Rightarrow> error + ParseResult" where
  "urlsplit cbh url0 =
     (let url1 = remove_unsafe_bytes (lstrip_c0_control_or_space url0);
          (sch, url2) = split_scheme url1;
          (nl, url3) = (if take 2 url2 = ''//'' then splitnetloc url2 2 else ('''', url2))
      in if take 2 url2 = ''//'' \<and> \<not> check_netloc_brackets cbh nl then Inl ValueError
         else
           let (url4, frag) = (if CHR ''#'' \<in> set url3 then split_first CHR ''#'' url3 else (url3, ''''));
               (url5, q) = (if CHR ''?'' \<in> set url4 then split_first CHR ''?'' url4 else (url4, ''''))
           in Inr \<lparr>scheme = sch, netloc = nl, path = url5, params = '''', query = q,
                    fragment = frag\<rparr>)"

definition splitparams :: "string \<Rightarrow> string \<times> string" where
  "splitparams url =
     (if CHR ''/'' \<in> set url
      then (case find_from CHR '';'' (the (rfind CHR ''/'' url)) url of
              None \<Rightarrow> (url, '''')
            | Some i \<Rightarrow> (take i url, drop (Suc i) url))
      else (case find_from CHR '';'' 0 url of
              None \<Rightarrow> (butlast url, url)
            | Some i \<Rightarrow> (take i url, drop (Suc i) url)))"

definition urlparse :: "(string \<Rightarrow> bool) \<Rightarrow> string \<Rightarrow> error + ParseResult" where
  "urlparse cbh url =
     (case urlsplit cbh url of
        Inl e \<Rightarrow> Inl e
      | Inr r \<Rightarrow>
          if scheme r \<in> set uses_params \<and> CHR '';'' \<in> set (path r)
          then (let (u, p) = splitparams (path r) in Inr (r\<lparr>path := u, params := p\<rparr>))
          else Inr r)"

section \<open>The line parser and the collector\<close>

text \<open>
  A dictionary is an association list in insertion order; \<open>d[k] = v\<close> is \<open>AList.update\<close>, which
  keeps the position of a key that is already there and appends a new one. A raised
  exception is the left summand of the result.
\<close>

type_synonym log_dict = "(string \<times> string) list"

definition parse_log_line :: "(string \<Rightarrow> bool) \<Rightarrow> string \<Rightarrow> error + log_dict option" where
  "parse_log_line cbh line =
     (case match_groupdict log_pattern line of
        Some log_dict \<Rightarrow>
          (case map_of log_dict ''url'' of
             None \<Rightarrow> Inl KeyError
           | Some u \<Rightarrow>
               (case urlparse cbh u of
                  Inl e \<Rightarrow> Inl e
                | Inr parsed_url \<Rightarrow>
                    Inr (Some (AList.update ''url'' (path parsed_url)
                                (AList.update ''query_parameters'' (query parsed_url) log_dict)))))
      | None \<Rightarrow> Inr None)"

text \<open>
  \<open>read_log_file\<close> iterates over the lines of the file, each as the text-mode reader hands it
  over (with its line break, if it has one). The file is the list of these lines.
  \<open>if parsed_log:\<close> holds for a dictionary that is not empty.
\<close>

fun read_log_file_loop ::
  "(string \<Rightarrow> bool) \<Rightarrow> log_dict list \<Rightarrow> string list \<Rightarrow> error + log_dict list" where
  "read_log_file_loop cbh parsed_logs [] = Inr parsed_logs"
| "read_log_file_loop cbh parsed_logs (line # file) =
     (case parse_log_line cbh line of
        Inl e \<Rightarrow> Inl e
      | Inr parsed_log \<Rightarrow>
          (case parsed_log of
             Some d \<Rightarrow>
               if d \<noteq> [] then read_log_file_loop cbh (parsed_logs @ [d]) file
               else read_log_file_loop cbh parsed_logs file
           | None \<Rightarrow> read_log_file_loop cbh parsed_logs file))"

definition read_log_file :: "(string \<Rightarrow> bool) \<Rightarrow> string list \<Rightarrow> error + log_dict list" where
  "read_log_file cbh file = read_log_file_loop cbh [] file"

section \<open>The row set: the data frame and its coercions\<close>

text \<open>
  Step 3 of the script builds a \<open>pandas\<close> data frame from the dictionaries and coerces two
  of its columns. A data frame is modelled as its columns in order, each a name and a series
  of cells, one cell per row. The operations follow the documented behaviour of \<open>pandas\<close>:
  \<^item> \<open>pd.DataFrame(records)\<close> has the keys of the dictionaries as columns, in the order in which
    they first appear, and no column at all for an empty list;
  \<^item> \<open>df[c]\<close> raises \<open>KeyError\<close> for a column that is not there;
  \<^item> \<open>pd.to_datetime(series, format=...)\<close> converts every string or raises (the default
    \<open>errors='raise'\<close>). The conversion of one string with the format
    \<open>%d/%b/%Y:%H:%M:%S %z\<close> is the parameter \<open>strptime\<close>: \<open>None\<close> where the conversion
    raises because the text does not conform to the format, the calendar moment with its
    offset otherwise;
  \<^item> \<open>astype(float)\<close> of a run of decimal digits is the number it denotes. The model keeps
    the exact value where a float rounds it to the nearest representable one; rounding keeps
    zero and the sign. A size column holds nothing but digit runs and \<open>-\<close>; the conversion of
    any other string is outside the model and is reported as \<open>ValueError\<close>.
\<close>

datatype 'm cell = Str string | NaN | Num int | Moment 'm

type_synonym 'm series = "'m cell list"
type_synonym 'm dataframe = "(string \<times> 'm series) list"

definition first_seen :: "'a list \<Rightarrow> 'a list" where
  "first_seen xs = rev (remdups (rev xs))"

definition DataFrame :: "log_dict list \<Rightarrow> 'm dataframe" where
  "DataFrame records =
     map (\<lambda>c. (c, map (\<lambda>d. case map_of d c of Some v \<Rightarrow> Str v | None \<Rightarrow> NaN) records))
         (first_seen (concat (map (map fst) records)))"

definition getitem :: "'m dataframe \<Rightarrow> string \<Rightarrow> error + 'm series" where
  "getitem df c = (case map_of df c of None \<Rightarrow> Inl KeyError | Some s \<Rightarrow> Inr s)"

definition setitem :: "'m dataframe \<Rightarrow> string \<Rightarrow> 'm series \<Rightarrow> 'm dataframe" where
  "setitem df c s = AList.update c s df"

fun to_datetime :: "(string \<Rightarrow> 'm option) \<Rightarrow> 'm series \<Rightarrow> error + 'm series" where
  "to_datetime strptime [] = Inr []"
| "to_datetime strptime (x # xs) =
     (case (case x of
              Str s \<Rightarrow> (case strptime s of None \<Rightarrow> Inl ValueError | Some m \<Rightarrow> Inr (Moment m))
            | NaN \<Rightarrow> Inr NaN
            | Moment m \<Rightarrow> Inr (Moment m)
            | Num n \<Rightarrow> Inl ValueError) of
        Inl e \<Rightarrow> Inl e
      | Inr y \<Rightarrow> (case to_datetime strptime xs of Inl e \<Rightarrow> Inl e | Inr ys \<Rightarrow> Inr (y # ys)))"

definition replace :: "string \<Rightarrow> 'm cell \<Rightarrow> 'm series \<Rightarrow> 'm series" where
  "replace old new s = map (\<lambda>x. case x of Str v \<Rightarrow> if v = old then new else x | _ \<Rightarrow> x) s"

definition digit_value :: "char \<Rightarrow> int" where
  "digit_value c = int (of_char c) - 48"

definition decimal :: "string \<Rightarrow> int" where
  "decimal s = foldl (\<lambda>a c. 10 * a + digit_value c) 0 s"

fun astype_float :: "'m series \<Rightarrow> error + 'm series" where
  "astype_float [] = Inr []"
| "astype_float (x # xs) =
     (case (case x of
              Str s \<Rightarrow> if s \<noteq> [] \<and> list_all is_digit s then Inr (Num (decimal s))
                       else Inl ValueError
            | NaN \<Rightarrow> Inr NaN
            | Num n \<Rightarrow> Inr (Num n)
            | Moment m \<Rightarrow> Inl ValueError) of
        Inl e \<Rightarrow> Inl e
      | Inr y \<Rightarrow> (case astype_float xs of Inl e \<Rightarrow> Inl e | Inr ys \<Rightarrow> Inr (y # ys)))"

definition fillna :: "'m cell \<Rightarrow> 'm series \<Rightarrow> 'm series" where
  "fillna v s = map (\<lambda>x. case x of NaN \<Rightarrow> v | _ \<Rightarrow> x) s"

definition select_columns :: "'m dataframe \<Rightarrow> string list \<Rightarrow> error + 'm dataframe" where
  "select_columns df cols =
     (if list_all (\<lambda>c. map_of df c \<noteq> None) cols
      then Inr (map (\<lambda>c. (c, the (map_of df c))) cols) else Inl KeyError)"

definition final_columns :: "string list" where
  "final_columns =
     [''ip'', ''timestamp'', ''method'', ''url'', ''status'', ''size'', ''query_parameters'']"

definition clean_parsed_logs ::
  "(string \<Rightarrow> 'm option) \<Rightarrow> log_dict list \<Rightarrow> error + 'm dataframe" where
  "clean_parsed_logs strptime parsed_logs =
     (let df0 = DataFrame parsed_logs in
      case getitem df0 ''timestamp'' of Inl e \<Rightarrow> Inl e | Inr ts \<Rightarrow>
      case to_datetime strptime ts of Inl e \<Rightarrow> Inl e | Inr ts' \<Rightarrow>
      let df1 = setitem df0 ''timestamp'' ts' in
      case getitem df1 ''size'' of Inl e \<Rightarrow> Inl e | Inr sz \<Rightarrow>
      case astype_float (replace ''-'' NaN sz) of Inl e \<Rightarrow> Inl e | Inr sz' \<Rightarrow>
      let df2 = setitem df1 ''size'' sz' in
      case select_columns df2 final_columns of Inl e \<Rightarrow> Inl e | Inr df3 \<Rightarrow>
      case getitem df3 ''size'' of Inl e \<Rightarrow> Inl e | Inr sz'' \<Rightarrow>
      Inr (setitem df3 ''size'' (fillna (Num 0) sz'')))"

text \<open>The row set of one run: the lines are read and parsed, then cleaned.\<close>

definition row_set ::
  "(string \<Rightarrow> 'm option) \<Rightarrow> (string \<Rightarrow> bool) \<Rightarrow> string list \<Rightarrow> error + 'm dataframe" where
  "row_set strptime cbh file =
     (case read_log_file cbh file of
        Inl e \<Rightarrow> Inl e
      | Inr parsed_logs \<Rightarrow> clean_parsed_logs strptime parsed_logs)"

section \<open>The examples of the specification\<close>

definition example_line :: string where
  \<open>example_line =
     ''203.0.113.5 - - [10/Oct/2023:13:55:36 +0000] "GET /index.html?id=42 HTTP/1.1" 200 512''\<close>

definition malformed_line :: string where
  \<open>malformed_line = ''- - - [bad] "BAD" -''\<close>

definition example_dict :: log_dict where
  "example_dict =
     [(''ip'', ''203.0.113.5''), (''timestamp'', ''10/Oct/2023:13:55:36 +0000''),
      (''method'', ''GET''), (''url'', ''/index.html''), (''status'', ''200''),
      (''size'', ''512''), (''query_parameters'', ''id=42'')]"

section \<open>The grammar of section 4.1 of the specification\<close>

text \<open>
  The grammar in the words of the specification: the fields in their fixed order with the
  literal separators between them (\<open>log_line\<close>) and what each field may hold
  (\<open>is_client_address\<close>, \<open>fields_ok\<close>). \<open>digits\<close> is a run of one or more decimal digits.
\<close>

definition digits :: "string \<Rightarrow> bool" where
  "digits s = (s \<noteq> [] \<and> list_all is_digit s)"

fun split_on :: "char \<Rightarrow> string \<Rightarrow> string list" where
  "split_on c [] = [[]]"
| "split_on c (x # xs) =
     (if x = c then [] # split_on c xs
      else (case split_on c xs of p # ps \<Rightarrow> (x # p) # ps | [] \<Rightarrow> [[x]]))"

definition dotted_quad :: "string \<Rightarrow> string \<Rightarrow> string \<Rightarrow> string \<Rightarrow> string" where
  "dotted_quad a b c d = a @ ''.'' @ b @ ''.'' @ c @ ''.'' @ d"

text \<open>Four runs of decimal digits separated by dots; the runs are not bounded.\<close>

definition is_dotted_digits :: "string \<Rightarrow> bool" where
  "is_dotted_digits ip =
     (let parts = split_on CHR ''.'' ip in length parts = 4 \<and> list_all digits parts)"

text \<open>An IPv4 address in dotted-quad notation: each of the four numbers is at most 255.\<close>

definition is_ipv4_literal :: "string \<Rightarrow> bool" where
  "is_ipv4_literal ip =
     (is_dotted_digits ip \<and> list_all (\<lambda>p. decimal p \<le> 255) (split_on CHR ''.'' ip))"

definition is_client_address :: "string \<Rightarrow> bool" where
  "is_client_address ip = (ip = ''NULL'' \<or> is_dotted_digits ip)"

definition log_line ::
  "string \<Rightarrow> string \<Rightarrow> string \<Rightarrow> string \<Rightarrow> string \<Rightarrow> string \<Rightarrow> string \<Rightarrow> string" where
  \<open>log_line ip ts m target ver st sz =
     ip @ '' - - ['' @ ts @ ''] "'' @ m @ '' '' @ target @ '' HTTP/'' @ ver @ ''" '' @ st
       @ '' '' @ sz\<close>

definition request_ok :: "string \<Rightarrow> string \<Rightarrow> string \<Rightarrow> string \<Rightarrow> bool" where
  \<open>request_ok ts m target ver =
     (ts \<noteq> [] \<and> list_all (\<lambda>c. c \<noteq> CHR '']'') ts \<and>
      m \<noteq> [] \<and> list_all is_word m \<and>
      target \<noteq> [] \<and> list_all (\<lambda>c. \<not> is_space c) target \<and>
      ver \<noteq> [] \<and> list_all (\<lambda>c. c \<noteq> CHR ''"'') ver)\<close>

definition fields_ok ::
  "string \<Rightarrow> string \<Rightarrow> string \<Rightarrow> string \<Rightarrow> string \<Rightarrow> string \<Rightarrow> bool" where
  "fields_ok ts m target ver st sz =
     (request_ok ts m target ver \<and>
      length st = 3 \<and> list_all is_digit st \<and>
      (digits sz \<or> sz = ''-''))"

text \<open>The dictionary of the six named groups of a line with these fields.\<close>

definition groupdict :: "string \<Rightarrow> string \<Rightarrow> string \<Rightarrow> string \<Rightarrow> string \<Rightarrow> string \<Rightarrow> groups" where
  "groupdict ip ts m target st sz =
     [(''ip'', ip), (''timestamp'', ts), (''method'', m), (''url'', target),
      (''status'', st), (''size'', sz)]"

text \<open>The record of the specification: the seven fields of a parsed line.\<close>

definition parsed_record ::
  "string \<Rightarrow> string \<Rightarrow> string \<Rightarrow> string \<Rightarrow> string \<Rightarrow> string \<Rightarrow> string \<Rightarrow> log_dict" where
  "parsed_record ip ts m p st sz q =
     [(''ip'', ip), (''timestamp'', ts), (''method'', m), (''url'', p),
      (''status'', st), (''size'', sz), (''query_parameters'', q)]"

text \<open>
  The split of the request target as the specification words it: the text before the first
  \<open>?\<close>, and everything after it (empty without a \<open>?\<close>).
\<close>

definition before_first_question :: "string \<Rightarrow> string" where
  "before_first_question target = takeWhile (\<lambda>c. c \<noteq> CHR ''?'') target"

definition after_first_question :: "string \<Rightarrow> string" where
  "after_first_question target = drop 1 (dropWhile (\<lambda>c. c \<noteq> CHR ''?'') target)"

text \<open>
  A request target in origin form with nothing but a path and a query: it starts with one
  \<open>/\<close>, has no \<open>#\<close> and no \<open>;\<close> before its first \<open>?\<close>.
\<close>

definition plain_target :: "string \<Rightarrow> bool" where
  "plain_target target =
     (take 1 target = ''/'' \<and> take 2 target \<noteq> ''//'' \<and> CHR ''#'' \<notin> set target \<and>
      CHR '';'' \<notin> set (before_first_question target))"

text \<open>The first field of a line: the text before its first space.\<close>

definition first_field :: "string \<Rightarrow> string" where
  "first_field line = takeWhile (\<lambda>c. c \<noteq> CHR '' '') line"

text \<open>A line matches when \<open>log_pattern.match\<close> returns a match object.\<close>

definition matches :: "string \<Rightarrow> bool" where
  "matches line = (match_groupdict log_pattern line \<noteq> None)"

text \<open>A bracketed-host check that accepts every host, for the concrete evaluations.\<close>

definition accept_all :: "string \<Rightarrow> bool" where
  "accept_all host = True"

text \<open>Names for the parts of \<open>log_pattern\<close>: its first group and what follows it.\<close>

abbreviation ip_alternatives :: regex where
  "ip_alternatives \<equiv>
     Alt (Seq [OneOrMore is_digit, Lit ''.'', OneOrMore is_digit, Lit ''.'',
               OneOrMore is_digit, Lit ''.'', OneOrMore is_digit])
         (Seq [WordBoundary, Lit ''NULL'', WordBoundary])"

abbreviation size_and_end :: "regex list" where
  "size_and_end \<equiv> [Group ''size'' (Alt (OneOrMore is_digit) (Lit ''-'')), EndAnchor]"

abbreviation status_and_size :: "regex list" where
  "status_and_size \<equiv> Group ''status'' (Exactly 3 is_digit) # Lit '' '' # size_and_end"

abbreviation after_ip :: "regex list" where
  \<open>after_ip \<equiv>
     Lit '' - - ['' #
     Group ''timestamp'' (OneOrMore (\<lambda>c. c \<noteq> CHR '']'')) #
     Lit ''] "'' #
     Group ''method'' (OneOrMore is_word) #
     Lit '' '' #
     Group ''url'' (OneOrMore (\<lambda>c. \<not> is_space c)) #
     Lit '' HTTP/'' #
     OneOrMore (\<lambda>c. c \<noteq> CHR ''"'') #
     Lit ''" '' #
     status_and_size\<close>

section \<open>Reading the dictionaries and the columns\<close>













section \<open>Facts about the matcher\<close>

lemma advance_simp: "advance k (b, s, g) = (rev (take k s) @ b, drop k s, g)"
  by (simp add: advance_def)

lemma capture_simp:
  "capture n s0 (b', s', g') = (b', s', AList.update n (take (length s0 - length s') s0) g')"
  by (simp add: capture_def)

lemma capture_append: "capture n (x @ y) (b', y, g') = (b', y, AList.update n x g')"
  by (simp add: capture_simp)

lemma log_pattern_unfold: "log_pattern = Seq (Group ''ip'' ip_alternatives # after_ip)"
  by (simp add: log_pattern_def)

lemma not_digit_simps [simp]:
  "\<not> is_digit CHR ''.''" "\<not> is_digit CHR '' ''" "\<not> is_digit CHR ''N''" "\<not> is_digit newline"
  "\<not> is_digit CHR ''-''"
  by (simp_all add: is_digit_def newline_def)

lemma is_word_simps [simp]:
  "is_word CHR ''N''" "is_word CHR ''L''" "\<not> is_word CHR '' ''" "is_digit c \<Longrightarrow> is_word c"
  by (auto simp: is_word_def is_digit_def is_ascii_alpha_def is_latin1_alnum_def)

lemma is_space_simps [simp]: "is_space CHR '' ''" "is_space newline"
  by (simp_all add: is_space_def newline_def)

subsection \<open>Only the longest repetition survives a delimiter\<close>

lemma concat_all_empty: "(\<And>k. k \<in> set ks \<Longrightarrow> f k = []) \<Longrightarrow> concat (map f ks) = []"
  by (induction ks) auto

lemma concat_greedy:
  assumes "\<And>k. 1 \<le> k \<Longrightarrow> k < n \<Longrightarrow> f k = []"
  shows "concat (map f (rev [1 ..< Suc n])) = (if n = 0 then [] else f n)"
proof (cases n)
  case 0
  then show ?thesis by simp
next
  case (Suc m)
  have "concat (map f (rev [1 ..< Suc m])) = []"
    by (rule concat_all_empty) (use assms Suc in auto)
  with Suc show ?thesis by simp
qed

lemma run_Seq_Lit:
  "run (Seq (Lit l # rs)) (b, s, g) =
     (if take (length l) s = l then run (Seq rs) (rev l @ b, drop (length l) s, g) else [])"
  by (simp add: advance_simp)

lemma run_Seq_Lit1: "run (Seq (Lit [c] # rs)) (b, c # t, g) = run (Seq rs) (c # b, t, g)"
  by (simp add: advance_simp)

lemma run_Lit_stuck:
  "s = [] \<or> hd s \<noteq> c \<Longrightarrow> run (Seq (Lit (c # l) # rs)) (b, s, g) = []"
  by (cases s) (auto simp: advance_simp)

lemma takeWhile_stop:
  "list_all p x \<Longrightarrow> (t = [] \<or> \<not> p (hd t)) \<Longrightarrow> takeWhile p (x @ t) = x"
  by (cases t) (auto simp: list_all_iff)

lemma hd_drop_class:
  assumes "list_all p x" "k < length x"
  shows "p (hd (drop k (x @ t)))"
proof -
  have "hd (drop k (x @ t)) = x ! k"
    using assms(2) by (simp add: hd_drop_conv_nth nth_append)
  then show ?thesis
    using assms by (simp add: list_all_length)
qed

lemma run_plus_lit:
  assumes "list_all p x" "x \<noteq> []" "\<not> p c"
  shows "run (Seq (OneOrMore p # Lit (c # l) # rs)) (b, x @ c # t, g) =
         run (Seq (Lit (c # l) # rs)) (rev x @ b, c # t, g)"
proof -
  let ?s = "x @ c # t"
  let ?K = "run (Seq (Lit (c # l) # rs))"
  have tw: "takeWhile p ?s = x"
    using assms by (simp add: takeWhile_stop)
  have stuck: "?K (advance k (b, ?s, g)) = []" if "1 \<le> k" "k < length x" for k
  proof -
    have "hd (drop k ?s) \<noteq> c"
      using hd_drop_class[OF assms(1) that(2), of "c # t"] assms(3) by auto
    then show ?thesis
      unfolding advance_simp by (rule run_Lit_stuck[OF disjI2])
  qed
  have "run (Seq (OneOrMore p # Lit (c # l) # rs)) (b, ?s, g) =
        concat (map (\<lambda>k. ?K (advance k (b, ?s, g))) (rev [1 ..< Suc (length x)]))"
    by (simp add: tw comp_def del: run.simps(1) upt_Suc)
  also have "\<dots> = ?K (advance (length x) (b, ?s, g))"
    using concat_greedy[of "length x" "\<lambda>k. ?K (advance k (b, ?s, g))"] stuck assms(2)
    by simp
  finally show ?thesis by (simp add: advance_simp)
qed

lemma run_group_plus_lit:
  assumes "list_all p x" "x \<noteq> []" "\<not> p c"
  shows "run (Seq (Group n (OneOrMore p) # Lit (c # l) # rs)) (b, x @ c # t, g) =
         run (Seq (Lit (c # l) # rs)) (rev x @ b, c # t, AList.update n x g)"
proof -
  let ?s = "x @ c # t"
  let ?K = "run (Seq (Lit (c # l) # rs))"
  have tw: "takeWhile p ?s = x"
    using assms by (simp add: takeWhile_stop)
  have stuck: "?K (capture n ?s (advance k (b, ?s, g))) = []" if "1 \<le> k" "k < length x" for k
  proof -
    have "hd (drop k ?s) \<noteq> c"
      using hd_drop_class[OF assms(1) that(2), of "c # t"] assms(3) by auto
    then show ?thesis
      unfolding advance_simp capture_simp by (rule run_Lit_stuck[OF disjI2])
  qed
  have "run (Seq (Group n (OneOrMore p) # Lit (c # l) # rs)) (b, ?s, g) =
        concat (map (\<lambda>k. ?K (capture n ?s (advance k (b, ?s, g)))) (rev [1 ..< Suc (length x)]))"
    by (simp add: tw comp_def del: run.simps(1) upt_Suc)
  also have "\<dots> = ?K (capture n ?s (advance (length x) (b, ?s, g)))"
    using concat_greedy[of "length x" "\<lambda>k. ?K (capture n ?s (advance k (b, ?s, g)))"]
      stuck assms(2) by simp
  finally show ?thesis by (simp add: advance_simp capture_simp)
qed

lemma run_plus_end:
  assumes "list_all p x" "t = [] \<or> \<not> p (hd t)"
  shows "run (Seq [OneOrMore p]) (b, x @ t, g) =
         map (\<lambda>k. advance k (b, x @ t, g)) (rev [1 ..< Suc (length x)])"
  using assms by (simp add: takeWhile_stop comp_def del: upt_Suc)

lemma run_NULL_stuck:
  assumes "s = [] \<or> hd s \<noteq> CHR ''N''"
  shows "run (Seq [WordBoundary, Lit ''NULL'', WordBoundary]) (b, s, g) = []"
  using assms by (cases s) (auto simp: advance_simp)

subsection \<open>The first group\<close>

lemma run_ip_dotted:
  assumes "digits a" "digits b" "digits c" "digits d"
  shows "run (Seq (Group ''ip'' ip_alternatives # Lit (CHR '' '' # l) # rs))
             (bef, dotted_quad a b c d @ CHR '' '' # t, g) =
         run (Seq (Lit (CHR '' '' # l) # rs))
             (rev (dotted_quad a b c d) @ bef, CHR '' '' # t,
              AList.update ''ip'' (dotted_quad a b c d) g)"
proof -
  let ?ip = "dotted_quad a b c d"
  let ?s = "?ip @ CHR '' '' # t"
  let ?K = "run (Seq (Lit (CHR '' '' # l) # rs))"
  let ?b3 = "rev (a @ ''.'' @ b @ ''.'' @ c @ ''.'') @ bef"
  let ?s3 = "d @ CHR '' '' # t"
  from assms have ne: "a \<noteq> []" "b \<noteq> []" "c \<noteq> []" "d \<noteq> []"
    and all: "list_all is_digit a" "list_all is_digit b" "list_all is_digit c" "list_all is_digit d"
    by (simp_all add: digits_def)
  have s_eq: "?s = a @ CHR ''.'' # b @ CHR ''.'' # c @ CHR ''.'' # d @ CHR '' '' # t"
    by (simp add: dotted_quad_def)
  have A: "run (Seq [OneOrMore is_digit, Lit ''.'', OneOrMore is_digit, Lit ''.'',
                     OneOrMore is_digit, Lit ''.'', OneOrMore is_digit]) (bef, ?s, g) =
           map (\<lambda>k. advance k (?b3, ?s3, g)) (rev [1 ..< Suc (length d)])"
    unfolding s_eq using all ne
    by (simp add: run_plus_lit run_Seq_Lit1 run_plus_end del: run.simps upt_Suc)
  have "hd ?s = hd a" using ne by (simp add: dotted_quad_def)
  moreover have "is_digit (hd a)" using ne all by (cases a) simp_all
  ultimately have "hd ?s \<noteq> CHR ''N''" by auto
  then have B: "run (Seq [WordBoundary, Lit ''NULL'', WordBoundary]) (bef, ?s, g) = []"
    by (intro run_NULL_stuck disjI2)
  have stuck: "?K (capture ''ip'' ?s (advance k (?b3, ?s3, g))) = []"
    if "1 \<le> k" "k < length d" for k
  proof -
    have "hd (drop k ?s3) \<noteq> CHR '' ''"
      using hd_drop_class[OF all(4) that(2), of "CHR '' '' # t"] by auto
    then show ?thesis
      unfolding advance_simp capture_simp by (rule run_Lit_stuck[OF disjI2])
  qed
  have "run (Seq (Group ''ip'' ip_alternatives # Lit (CHR '' '' # l) # rs)) (bef, ?s, g) =
        concat (map (\<lambda>k. ?K (capture ''ip'' ?s (advance k (?b3, ?s3, g))))
                 (rev [1 ..< Suc (length d)]))"
    unfolding run.simps(6)[of "Group _ _"] run.simps(7) run.simps(4) A B
    by (simp add: comp_def del: run.simps upt_Suc)
  also have "\<dots> = ?K (capture ''ip'' ?s (advance (length d) (?b3, ?s3, g)))"
    using concat_greedy[of "length d" "\<lambda>k. ?K (capture ''ip'' ?s (advance k (?b3, ?s3, g)))"]
      stuck ne(4) by simp
  also have "advance (length d) (?b3, ?s3, g) = (rev d @ ?b3, CHR '' '' # t, g)"
    by (simp add: advance_simp)
  also have "capture ''ip'' ?s (rev d @ ?b3, CHR '' '' # t, g) =
             (rev d @ ?b3, CHR '' '' # t, AList.update ''ip'' ?ip g)"
    by (rule capture_append)
  finally show ?thesis
    by (simp add: dotted_quad_def del: run.simps)
qed

lemma run_ip_NULL:
  "run (Seq (Group ''ip'' ip_alternatives # Lit (CHR '' '' # l) # rs))
       ([], ''NULL'' @ CHR '' '' # t, g) =
   run (Seq (Lit (CHR '' '' # l) # rs))
       (rev ''NULL'', CHR '' '' # t, AList.update ''ip'' ''NULL'' g)"
  by (simp add: advance_simp capture_simp at_word_def)

subsection \<open>The last group and the end of the line\<close>

lemma run_size_end:
  assumes "digits sz \<or> sz = ''-''" "e = [] \<or> e = [newline]"
  shows "run (Seq size_and_end) (b, sz @ e, g) = [(rev sz @ b, e, AList.update ''size'' sz g)]"
proof -
  let ?s = "sz @ e"
  let ?K = "run (Seq [EndAnchor])"
  have e: "e = [] \<or> \<not> is_digit (hd e)" using assms(2) by auto
  show ?thesis
  proof (cases "sz = ''-''")
    case True
    then show ?thesis using assms(2)
      by (auto simp: advance_simp capture_simp)
  next
    case False
    with assms have ne: "sz \<noteq> []" and all: "list_all is_digit sz"
      by (simp_all add: digits_def)
    have tw: "takeWhile is_digit ?s = sz"
      using all e by (simp add: takeWhile_stop)
    have "hd ?s = hd sz" using ne by simp
    moreover have "is_digit (hd sz)" using ne all by (cases sz) simp_all
    ultimately have nodash: "take 1 ?s \<noteq> ''-''"
      using ne by (cases sz) auto
    have stuck: "?K (capture ''size'' ?s (advance k (b, ?s, g))) = []"
      if "1 \<le> k" "k < length sz" for k
    proof -
      have "drop k ?s = drop k sz @ e" using that by simp
      moreover have "drop k sz \<noteq> []" using that by simp
      moreover have "is_digit (hd (drop k sz))"
        using all that by (simp add: hd_drop_conv_nth list_all_length)
      ultimately have "drop k ?s \<noteq> [] \<and> drop k ?s \<noteq> [newline]"
        by (cases "drop k sz") auto
      then show ?thesis
        by (simp add: advance_simp capture_simp)
    qed
    have "run (Seq size_and_end) (b, ?s, g) =
          concat (map (\<lambda>k. ?K (capture ''size'' ?s (advance k (b, ?s, g))))
                   (rev [1 ..< Suc (length sz)]))"
      using nodash by (simp add: tw comp_def del: upt_Suc run.simps(9))
    also have "\<dots> = ?K (capture ''size'' ?s (advance (length sz) (b, ?s, g)))"
      using concat_greedy[of "length sz" "\<lambda>k. ?K (capture ''size'' ?s (advance k (b, ?s, g)))"]
        stuck ne by simp
    finally show ?thesis using assms(2)
      by (auto simp: advance_simp capture_simp)
  qed
qed

subsection \<open>A line of the grammar is matched in one way\<close>

lemma run_after_ip:
  assumes "request_ok ts m target ver"
  shows \<open>run (Seq after_ip)
            (b, '' - - ['' @ ts @ ''] "'' @ m @ '' '' @ target @ '' HTTP/'' @ ver @ ''" '' @ r,
             [(''ip'', ip)])
         = run (Seq status_and_size)
            (rev ('' - - ['' @ ts @ ''] "'' @ m @ '' '' @ target @ '' HTTP/'' @ ver @ ''" '') @ b,
             r, [(''ip'', ip), (''timestamp'', ts), (''method'', m), (''url'', target)])\<close>
  using assms
  by (simp add: request_ok_def run_Seq_Lit run_group_plus_lit run_plus_lit del: run.simps)

lemma run_group_exactly_gen:
  "run (Seq (Group n (Exactly k p) # rs)) (b, s, g) =
     (if k \<le> length s \<and> list_all p (take k s)
      then run (Seq rs) (rev (take k s) @ b, drop k s, AList.update n (take k s) g) else [])"
  by (auto simp: advance_simp capture_simp)

lemma run_status:
  assumes "length st = 3" "list_all is_digit st"
  shows "run (Seq status_and_size) (b, st @ '' '' @ r, g) =
         run (Seq size_and_end) (rev (st @ '' '') @ b, r, AList.update ''status'' st g)"
  using assms by (simp add: advance_simp capture_simp)

lemma run_status_width:
  assumes "list_all is_digit st" "length st \<noteq> 3"
  shows "run (Seq status_and_size) (b, st @ '' '' @ r, g) = []"
proof (cases "length st < 3")
  case True
  then have "take 3 (st @ '' '' @ r) = st @ take (3 - length st) ('' '' @ r)"
    by simp
  moreover have "CHR '' '' \<in> set (take (3 - length st) ('' '' @ r))"
    using True by (cases "3 - length st") auto
  ultimately have "\<not> list_all is_digit (take 3 (st @ '' '' @ r))"
    using not_digit_simps(2) by (auto simp: list_all_iff simp del: not_digit_simps)
  then show ?thesis
    by (simp del: take_append)
next
  case False
  with assms(2) have len: "3 < length st" by simp
  have "is_digit (hd (drop 3 (st @ '' '' @ r)))"
    using hd_drop_class[OF assms(1) len] by simp
  then have "hd (drop 3 (st @ '' '' @ r)) \<noteq> CHR '' ''"
    by auto
  then have "run (Seq (Lit '' '' # size_and_end)) (b', drop 3 (st @ '' '' @ r), g') = []" for b' g'
    by (intro run_Lit_stuck disjI2)
  then show ?thesis
    unfolding run_group_exactly_gen by (simp del: run.simps)
qed

lemma run_size_trailing:
  assumes "digits sz \<or> sz = ''-''" "t \<noteq> []" "t \<noteq> [newline]" "sz = ''-'' \<or> \<not> is_digit (hd t)"
  shows "run (Seq size_and_end) (b, sz @ t, g) = []"
proof -
  let ?s = "sz @ t"
  let ?K = "run (Seq [EndAnchor])"
  have end_stuck: "?K (b', u, g') = []" if "u \<noteq> []" "u \<noteq> [newline]" for b' u g'
    using that by simp
  show ?thesis
  proof (cases "sz = ''-''")
    case True
    then show ?thesis using assms(2,3)
      by (auto simp: advance_simp capture_simp)
  next
    case False
    with assms have ne: "sz \<noteq> []" and all: "list_all is_digit sz" and t: "\<not> is_digit (hd t)"
      by (simp_all add: digits_def)
    have tw: "takeWhile is_digit ?s = sz"
      using all t by (simp add: takeWhile_stop)
    have "hd ?s = hd sz" using ne by simp
    moreover have "is_digit (hd sz)" using ne all by (cases sz) simp_all
    ultimately have nodash: "take 1 ?s \<noteq> ''-''"
      using ne by (cases sz) auto
    have stuck: "?K (capture ''size'' ?s (advance k (b, ?s, g))) = []"
      if "1 \<le> k" "k \<le> length sz" for k
    proof -
      have "drop k ?s = drop k sz @ t" using that by simp
      moreover have "drop k sz @ t \<noteq> []" using assms(2) by simp
      moreover have "drop k sz @ t \<noteq> [newline]"
      proof (cases "k < length sz")
        case True
        then have "is_digit (hd (drop k sz))"
          using all by (simp add: hd_drop_conv_nth list_all_length)
        moreover have "drop k sz \<noteq> []" using True by simp
        ultimately show ?thesis by (cases "drop k sz") auto
      next
        case False
        then show ?thesis using assms(3) that by simp
      qed
      ultimately show ?thesis
        unfolding advance_simp capture_simp using end_stuck by metis
    qed
    have "run (Seq size_and_end) (b, ?s, g) =
          concat (map (\<lambda>k. ?K (capture ''size'' ?s (advance k (b, ?s, g))))
                   (rev [1 ..< Suc (length sz)]))"
      using nodash by (simp add: tw comp_def del: upt_Suc run.simps(9))
    also have "\<dots> = []"
      by (rule concat_all_empty) (use stuck in auto)
    finally show ?thesis .
  qed
qed

subsection \<open>Client addresses\<close>

lemma split_on_nonempty [simp]: "split_on c s \<noteq> []"
  by (induction s) (auto split: list.splits)

lemma split_on_no_delim: "c \<notin> set s \<Longrightarrow> split_on c s = [s]"
  by (induction s) auto

lemma split_on_append: "c \<notin> set a \<Longrightarrow> split_on c (a @ c # s) = a # split_on c s"
  by (induction a) auto

lemma digits_no_dot: "digits a \<Longrightarrow> CHR ''.'' \<notin> set a"
  by (auto simp: digits_def list_all_iff)

lemma digits_no_space: "digits a \<Longrightarrow> CHR '' '' \<notin> set a"
  by (auto simp: digits_def list_all_iff)

lemma split_on_dotted_quad:
  assumes "digits a" "digits b" "digits c" "digits d"
  shows "split_on CHR ''.'' (dotted_quad a b c d) = [a, b, c, d]"
  using assms
  by (simp add: dotted_quad_def split_on_append split_on_no_delim digits_no_dot)

lemma join_split_on:
  "split_on c s = p # ps \<Longrightarrow> s = p @ concat (map (\<lambda>q. c # q) ps)"
proof (induction s arbitrary: p ps)
  case Nil
  then show ?case by simp
next
  case (Cons x xs)
  show ?case
  proof (cases "x = c")
    case True
    obtain q qs where q: "split_on c xs = q # qs"
      by (cases "split_on c xs") simp_all
    with Cons.prems True have "p = []" "ps = q # qs" by simp_all
    with Cons.IH[OF q] True show ?thesis by simp
  next
    case False
    obtain q qs where q: "split_on c xs = q # qs"
      by (cases "split_on c xs") simp_all
    with Cons.prems False have "p = x # q" "ps = qs" by simp_all
    with Cons.IH[OF q] show ?thesis by simp
  qed
qed

lemma is_dotted_digits_iff:
  "is_dotted_digits ip \<longleftrightarrow>
     (\<exists>a b c d. digits a \<and> digits b \<and> digits c \<and> digits d \<and> ip = dotted_quad a b c d)"
proof
  assume "is_dotted_digits ip"
  then obtain a b c d where parts: "split_on CHR ''.'' ip = [a, b, c, d]"
    and "digits a" "digits b" "digits c" "digits d"
    by (auto simp: is_dotted_digits_def Let_def length_Suc_conv numeral_eq_Suc)
  moreover from join_split_on[OF parts] have "ip = dotted_quad a b c d"
    by (simp add: dotted_quad_def)
  ultimately show "\<exists>a b c d. digits a \<and> digits b \<and> digits c \<and> digits d \<and> ip = dotted_quad a b c d"
    by blast
next
  assume "\<exists>a b c d. digits a \<and> digits b \<and> digits c \<and> digits d \<and> ip = dotted_quad a b c d"
  then show "is_dotted_digits ip"
    by (auto simp: is_dotted_digits_def split_on_dotted_quad)
qed

lemma client_address_no_space:
  assumes "is_client_address ip"
  shows "CHR '' '' \<notin> set ip"
proof -
  from assms consider "ip = ''NULL''"
    | a b c d where "digits a" "digits b" "digits c" "digits d" "ip = dotted_quad a b c d"
    by (auto simp: is_client_address_def is_dotted_digits_iff)
  then show ?thesis
  proof cases
    case 1
    then show ?thesis by simp
  next
    case 2
    then show ?thesis
      using digits_no_space[of a] digits_no_space[of b] digits_no_space[of c]
        digits_no_space[of d]
      by (simp add: dotted_quad_def)
  qed
qed

lemma first_field_log_line:
  assumes "is_client_address ip"
  shows "first_field (log_line ip ts m target ver st sz @ e) = ip"
proof -
  have "list_all (\<lambda>c. c \<noteq> CHR '' '') ip"
    using client_address_no_space[OF assms] by (auto simp: list_all_iff)
  then have "takeWhile (\<lambda>c. c \<noteq> CHR '' '') (ip @ CHR '' '' # t) = ip" for t
    by (intro takeWhile_stop) simp_all
  then show ?thesis
    by (simp add: first_field_def log_line_def)
qed

subsection \<open>Lines of the grammar are matched, with their fields as the groups\<close>

lemma run_up_to_status:
  assumes "is_client_address ip" "request_ok ts m target ver"
  shows \<open>run log_pattern
           ([], ip @ '' - - ['' @ ts @ ''] "'' @ m @ '' '' @ target @ '' HTTP/'' @ ver @ ''" '' @ r, [])
         = run (Seq status_and_size)
            (rev (ip @ '' - - ['' @ ts @ ''] "'' @ m @ '' '' @ target @ '' HTTP/'' @ ver @ ''" ''),
             r, [(''ip'', ip), (''timestamp'', ts), (''method'', m), (''url'', target)])\<close>
proof -
  from assms(1) consider "ip = ''NULL''"
    | a b c d where "digits a" "digits b" "digits c" "digits d" "ip = dotted_quad a b c d"
    by (auto simp: is_client_address_def is_dotted_digits_iff)
  then show ?thesis
  proof cases
    case 1
    show ?thesis
      unfolding log_pattern_unfold 1
      using run_ip_NULL run_after_ip[OF assms(2), of "rev ''NULL''" _ "''NULL''"]
      by (simp del: run.simps)
  next
    case 2
    show ?thesis
      unfolding log_pattern_unfold 2(5)
      using run_ip_dotted[OF 2(1-4), where bef = "[]" and g = "[]"]
        run_after_ip[OF assms(2), of "rev (dotted_quad a b c d)" _ "dotted_quad a b c d"]
      by (simp del: run.simps)
  qed
qed

lemma run_log_pattern_complete:
  assumes "is_client_address ip" "fields_ok ts m target ver st sz" "e = [] \<or> e = [newline]"
  shows "run log_pattern ([], log_line ip ts m target ver st sz @ e, []) =
         [(rev (log_line ip ts m target ver st sz), e, groupdict ip ts m target st sz)]"
proof -
  from assms(2) have req: "request_ok ts m target ver" and st: "length st = 3" "list_all is_digit st"
    and sz: "digits sz \<or> sz = ''-''"
    by (simp_all add: fields_ok_def)
  show ?thesis
    unfolding log_line_def
    using run_up_to_status[OF assms(1) req, of "st @ '' '' @ sz @ e"]
      run_status[OF st, of _ "sz @ e"] run_size_end[OF sz assms(3)]
    by (simp add: groupdict_def del: run.simps)
qed

subsection \<open>Every match is a line of the grammar\<close>

lemma in_run_Seq_Cons:
  "x \<in> set (run (Seq (r # rs)) st) \<longleftrightarrow> (\<exists>y\<in>set (run r st). x \<in> set (run (Seq rs) y))"
  by auto

lemma in_run_Seq_Nil: "x \<in> set (run (Seq []) st) \<longleftrightarrow> x = st"
  by auto

lemma in_run_Lit:
  "y \<in> set (run (Lit l) (b, s, g)) \<longleftrightarrow> (\<exists>t. s = l @ t \<and> y = (rev l @ b, t, g))"
  by (auto simp: advance_simp) (metis append_take_drop_id)

lemma in_run_OneOrMore:
  assumes "y \<in> set (run (OneOrMore p) (b, s, g))"
  shows "\<exists>x t. s = x @ t \<and> x \<noteq> [] \<and> list_all p x \<and> y = (rev x @ b, t, g)"
proof -
  from assms obtain k where k: "1 \<le> k" "k \<le> length (takeWhile p s)" "y = advance k (b, s, g)"
    by auto
  have "list_all p (take k (takeWhile p s))"
    by (metis list_all_iff in_set_takeD set_takeWhileD)
  moreover have "take k (takeWhile p s) = take k s"
    using k(2) by (metis append_eq_conv_conj append_take_drop_id length_take min.absorb2 takeWhile_dropWhile_id take_append take_all_iff order_refl take_take)
  ultimately have "list_all p (take k s)" by simp
  moreover have "take k s \<noteq> []"
    using k length_takeWhile_le[of p s] by (cases s) auto
  ultimately show ?thesis
    using k(3) by (intro exI[of _ "take k s"] exI[of _ "drop k s"]) (simp add: advance_simp)
qed

lemma in_run_Group_OneOrMore:
  assumes "y \<in> set (run (Group n (OneOrMore p)) (b, s, g))"
  shows "\<exists>x t. s = x @ t \<and> x \<noteq> [] \<and> list_all p x \<and> y = (rev x @ b, t, AList.update n x g)"
proof -
  from assms have "y \<in> capture n s ` set (run (OneOrMore p) (b, s, g))"
    by (simp del: run.simps(2))
  then obtain z where z: "z \<in> set (run (OneOrMore p) (b, s, g))" "y = capture n s z"
    by blast
  from in_run_OneOrMore[OF z(1)] z(2) show ?thesis
    by (auto simp: capture_simp)
qed

lemma in_run_Exactly:
  assumes "y \<in> set (run (Exactly k p) (b, s, g))"
  shows "\<exists>x t. s = x @ t \<and> length x = k \<and> list_all p x \<and> y = (rev x @ b, t, g)"
  using assms
  by (auto simp: advance_simp split: if_splits intro!: exI[of _ "take k s"] exI[of _ "drop k s"])

declare run.simps [simp del]

lemma seq_Lit_E:
  assumes "x \<in> set (run (Seq (Lit l # rs)) (b, s, g))"
  obtains t where "s = l @ t" "x \<in> set (run (Seq rs) (rev l @ b, t, g))"
proof -
  from assms obtain y where "y \<in> set (run (Lit l) (b, s, g))" "x \<in> set (run (Seq rs) y)"
    unfolding in_run_Seq_Cons by blast
  with that show thesis unfolding in_run_Lit by blast
qed

lemma seq_Plus_E:
  assumes "x \<in> set (run (Seq (OneOrMore p # rs)) (b, s, g))"
  obtains f t where "s = f @ t" "f \<noteq> []" "list_all p f" "x \<in> set (run (Seq rs) (rev f @ b, t, g))"
  using assms unfolding in_run_Seq_Cons by (blast dest: in_run_OneOrMore)

lemma seq_Group_Plus_E:
  assumes "x \<in> set (run (Seq (Group n (OneOrMore p) # rs)) (b, s, g))"
  obtains f t where "s = f @ t" "f \<noteq> []" "list_all p f"
    "x \<in> set (run (Seq rs) (rev f @ b, t, AList.update n f g))"
  using assms unfolding in_run_Seq_Cons by (blast dest: in_run_Group_OneOrMore)

lemma seq_Group_Exactly_E:
  assumes "x \<in> set (run (Seq (Group n (Exactly k p) # rs)) (b, s, g))"
  obtains f t where "s = f @ t" "length f = k" "list_all p f"
    "x \<in> set (run (Seq rs) (rev f @ b, t, AList.update n f g))"
proof -
  from assms obtain y where y: "y \<in> set (run (Group n (Exactly k p)) (b, s, g))"
    "x \<in> set (run (Seq rs) y)"
    unfolding in_run_Seq_Cons by blast
  from y(1) have "y \<in> capture n s ` set (run (Exactly k p) (b, s, g))"
    by (simp add: run.simps(7))
  then obtain z where z: "z \<in> set (run (Exactly k p) (b, s, g))" "y = capture n s z"
    by blast
  from in_run_Exactly[OF z(1)] obtain f t where
    f: "s = f @ t" "length f = k" "list_all p f" "z = (rev f @ b, t, g)"
    by blast
  with z(2) have "y = (rev f @ b, t, AList.update n f g)"
    by (simp add: capture_simp)
  with y(2) f that show thesis by blast
qed

lemma in_run_WordBoundary: "y \<in> set (run WordBoundary st) \<Longrightarrow> y = st"
  by (simp add: run.simps split: if_splits)

lemma seq_ip_E:
  assumes "x \<in> set (run (Seq (Group ''ip'' ip_alternatives # rs)) (b, s, g))"
  obtains ip t g' where "s = ip @ t" "is_client_address ip"
    "x \<in> set (run (Seq rs) (rev ip @ b, t, g'))"
proof -
  from assms obtain y where y: "y \<in> set (run (Group ''ip'' ip_alternatives) (b, s, g))"
    "x \<in> set (run (Seq rs) y)"
    unfolding in_run_Seq_Cons by blast
  let ?A = "Seq [OneOrMore is_digit, Lit ''.'', OneOrMore is_digit, Lit ''.'',
               OneOrMore is_digit, Lit ''.'', OneOrMore is_digit]"
  let ?B = "Seq [WordBoundary, Lit ''NULL'', WordBoundary]"
  from y(1) have "y \<in> capture ''ip'' s ` (set (run ?A (b, s, g)) \<union> set (run ?B (b, s, g)))"
    unfolding run.simps(7) run.simps(4) by (simp add: image_Un)
  then obtain z where z: "z \<in> set (run ?A (b, s, g)) \<or> z \<in> set (run ?B (b, s, g))"
    "y = capture ''ip'' s z"
    by blast
  have "\<exists>ip t. s = ip @ t \<and> is_client_address ip \<and> z = (rev ip @ b, t, g)"
    using z(1)
  proof
    assume "z \<in> set (run ?A (b, s, g))"
    then obtain a t1 where a: "s = a @ t1" "a \<noteq> []" "list_all is_digit a"
      and 1: "z \<in> set (run (Seq [Lit ''.'', OneOrMore is_digit, Lit ''.'',
               OneOrMore is_digit, Lit ''.'', OneOrMore is_digit]) (rev a @ b, t1, g))"
      by (rule seq_Plus_E)
    from 1 obtain t2 where t2: "t1 = ''.'' @ t2"
      and 2: "z \<in> set (run (Seq [OneOrMore is_digit, Lit ''.'',
               OneOrMore is_digit, Lit ''.'', OneOrMore is_digit]) (rev ''.'' @ rev a @ b, t2, g))"
      by (rule seq_Lit_E)
    from 2 obtain b' t3 where b': "t2 = b' @ t3" "b' \<noteq> []" "list_all is_digit b'"
      and 3: "z \<in> set (run (Seq [Lit ''.'',
               OneOrMore is_digit, Lit ''.'', OneOrMore is_digit]) (rev b' @ rev ''.'' @ rev a @ b, t3, g))"
      by (rule seq_Plus_E)
    from 3 obtain t4 where t4: "t3 = ''.'' @ t4"
      and 4: "z \<in> set (run (Seq [OneOrMore is_digit, Lit ''.'', OneOrMore is_digit])
                (rev ''.'' @ rev b' @ rev ''.'' @ rev a @ b, t4, g))"
      by (rule seq_Lit_E)
    from 4 obtain c t5 where c: "t4 = c @ t5" "c \<noteq> []" "list_all is_digit c"
      and 5: "z \<in> set (run (Seq [Lit ''.'', OneOrMore is_digit])
                (rev c @ rev ''.'' @ rev b' @ rev ''.'' @ rev a @ b, t5, g))"
      by (rule seq_Plus_E)
    from 5 obtain t6 where t6: "t5 = ''.'' @ t6"
      and 6: "z \<in> set (run (Seq [OneOrMore is_digit])
                (rev ''.'' @ rev c @ rev ''.'' @ rev b' @ rev ''.'' @ rev a @ b, t6, g))"
      by (rule seq_Lit_E)
    from 6 obtain d t7 where d: "t6 = d @ t7" "d \<noteq> []" "list_all is_digit d"
      and 7: "z \<in> set (run (Seq [])
                (rev d @ rev ''.'' @ rev c @ rev ''.'' @ rev b' @ rev ''.'' @ rev a @ b, t7, g))"
      by (rule seq_Plus_E)
    have "is_client_address (dotted_quad a b' c d)"
      using a b' c d by (auto simp: is_client_address_def is_dotted_digits_iff digits_def)
    moreover have "s = dotted_quad a b' c d @ t7"
      using a t2 b' t4 c t6 d by (simp add: dotted_quad_def)
    moreover have "z = (rev (dotted_quad a b' c d) @ b, t7, g)"
      using 7 by (simp add: dotted_quad_def in_run_Seq_Nil)
    ultimately show ?thesis by blast
  next
    assume "z \<in> set (run ?B (b, s, g))"
    then obtain y1 where y1: "y1 \<in> set (run WordBoundary (b, s, g))"
      "z \<in> set (run (Seq [Lit ''NULL'', WordBoundary]) y1)"
      unfolding in_run_Seq_Cons by blast
    from y1(1) have "y1 = (b, s, g)"
      by (rule in_run_WordBoundary)
    with y1(2) obtain t where t: "s = ''NULL'' @ t"
      "z \<in> set (run (Seq [WordBoundary]) (rev ''NULL'' @ b, t, g))"
      by (auto elim: seq_Lit_E)
    from t(2) obtain y2 where y2: "y2 \<in> set (run WordBoundary (rev ''NULL'' @ b, t, g))"
      "z \<in> set (run (Seq []) y2)"
      unfolding in_run_Seq_Cons by blast
    from y2(1) have "y2 = (rev ''NULL'' @ b, t, g)"
      by (rule in_run_WordBoundary)
    with y2(2) have "z = (rev ''NULL'' @ b, t, g)"
      by (simp add: in_run_Seq_Nil)
    with t(1) show ?thesis
      unfolding is_client_address_def by blast
  qed
  then obtain ip t where ip: "s = ip @ t" "is_client_address ip" "z = (rev ip @ b, t, g)"
    by blast
  with z(2) have "y = (rev ip @ b, t, AList.update ''ip'' ip g)"
    by (simp add: capture_simp)
  with y(2) ip that show thesis by blast
qed

lemma seq_size_end_E:
  assumes "x \<in> set (run (Seq [Group ''size'' (Alt (OneOrMore is_digit) (Lit ''-'')), EndAnchor])
                      (b, s, g))"
  obtains sz e where "s = sz @ e" "digits sz \<or> sz = ''-''" "e = [] \<or> e = [newline]"
proof -
  from assms obtain y where y: "y \<in> set (run (Group ''size'' (Alt (OneOrMore is_digit) (Lit ''-''))) (b, s, g))"
    "x \<in> set (run (Seq [EndAnchor]) y)"
    unfolding in_run_Seq_Cons by blast
  from y(1) obtain z where z: "z \<in> set (run (OneOrMore is_digit) (b, s, g)) \<or> z \<in> set (run (Lit ''-'') (b, s, g))"
    "y = capture ''size'' s z"
    unfolding run.simps(7) run.simps(4) by auto
  have "\<exists>sz e. s = sz @ e \<and> (digits sz \<or> sz = ''-'') \<and> z = (rev sz @ b, e, g)"
    using z(1)
  proof
    assume "z \<in> set (run (OneOrMore is_digit) (b, s, g))"
    from in_run_OneOrMore[OF this] show ?thesis
      by (auto simp: digits_def)
  next
    assume "z \<in> set (run (Lit ''-'') (b, s, g))"
    then show ?thesis unfolding in_run_Lit by blast
  qed
  then obtain sz e where sz: "s = sz @ e" "digits sz \<or> sz = ''-''" "z = (rev sz @ b, e, g)"
    by blast
  with z(2) y(2) have "e = [] \<or> e = [newline]"
    by (auto simp: capture_simp run.simps split: if_splits)
  with sz that show thesis by blast
qed

lemma run_log_pattern_sound:
  assumes "x \<in> set (run log_pattern ([], line, []))"
  shows "\<exists>ip ts m target ver st sz e.
           is_client_address ip \<and> fields_ok ts m target ver st sz \<and> (e = [] \<or> e = [newline]) \<and>
           line = log_line ip ts m target ver st sz @ e"
proof -
  from assms[unfolded log_pattern_unfold]
  obtain ip t1 g1 b1 where ip: "line = ip @ t1" "is_client_address ip"
    and 1: \<open>x \<in> set (run (Seq [Lit '' - - ['',
     Group ''timestamp'' (OneOrMore (\<lambda>c. c \<noteq> CHR '']'')),
     Lit ''] "'',
     Group ''method'' (OneOrMore is_word),
     Lit '' '',
     Group ''url'' (OneOrMore (\<lambda>c. \<not> is_space c)),
     Lit '' HTTP/'',
     OneOrMore (\<lambda>c. c \<noteq> CHR ''"''),
     Lit ''" '',
     Group ''status'' (Exactly 3 is_digit),
     Lit '' '',
     Group ''size'' (Alt (OneOrMore is_digit) (Lit ''-'')),
     EndAnchor]) (b1, t1, g1))\<close>
    by (elim seq_ip_E) blast
  from 1 obtain t2 b2 where t2: "t1 = '' - - ['' @ t2"
    and 2: \<open>x \<in> set (run (Seq [
     Group ''timestamp'' (OneOrMore (\<lambda>c. c \<noteq> CHR '']'')),
     Lit ''] "'',
     Group ''method'' (OneOrMore is_word),
     Lit '' '',
     Group ''url'' (OneOrMore (\<lambda>c. \<not> is_space c)),
     Lit '' HTTP/'',
     OneOrMore (\<lambda>c. c \<noteq> CHR ''"''),
     Lit ''" '',
     Group ''status'' (Exactly 3 is_digit),
     Lit '' '',
     Group ''size'' (Alt (OneOrMore is_digit) (Lit ''-'')),
     EndAnchor]) (b2, t2, g1))\<close>
    by (elim seq_Lit_E) blast
  from 2 obtain ts t3 b3 g3 where ts: "t2 = ts @ t3" "ts \<noteq> []" "list_all (\<lambda>c. c \<noteq> CHR '']'') ts"
    and 3: \<open>x \<in> set (run (Seq [
     Lit ''] "'',
     Group ''method'' (OneOrMore is_word),
     Lit '' '',
     Group ''url'' (OneOrMore (\<lambda>c. \<not> is_space c)),
     Lit '' HTTP/'',
     OneOrMore (\<lambda>c. c \<noteq> CHR ''"''),
     Lit ''" '',
     Group ''status'' (Exactly 3 is_digit),
     Lit '' '',
     Group ''size'' (Alt (OneOrMore is_digit) (Lit ''-'')),
     EndAnchor]) (b3, t3, g3))\<close>
    by (elim seq_Group_Plus_E) blast
  from 3 obtain t4 b4 where t4: \<open>t3 = ''] "'' @ t4\<close>
    and 4: \<open>x \<in> set (run (Seq [
     Group ''method'' (OneOrMore is_word),
     Lit '' '',
     Group ''url'' (OneOrMore (\<lambda>c. \<not> is_space c)),
     Lit '' HTTP/'',
     OneOrMore (\<lambda>c. c \<noteq> CHR ''"''),
     Lit ''" '',
     Group ''status'' (Exactly 3 is_digit),
     Lit '' '',
     Group ''size'' (Alt (OneOrMore is_digit) (Lit ''-'')),
     EndAnchor]) (b4, t4, g3))\<close>
    by (elim seq_Lit_E) blast
  from 4 obtain m t5 b5 g5 where m: "t4 = m @ t5" "m \<noteq> []" "list_all is_word m"
    and 5: \<open>x \<in> set (run (Seq [
     Lit '' '',
     Group ''url'' (OneOrMore (\<lambda>c. \<not> is_space c)),
     Lit '' HTTP/'',
     OneOrMore (\<lambda>c. c \<noteq> CHR ''"''),
     Lit ''" '',
     Group ''status'' (Exactly 3 is_digit),
     Lit '' '',
     Group ''size'' (Alt (OneOrMore is_digit) (Lit ''-'')),
     EndAnchor]) (b5, t5, g5))\<close>
    by (elim seq_Group_Plus_E) blast
  from 5 obtain t6 b6 where t6: \<open>t5 = '' '' @ t6\<close>
    and 6: \<open>x \<in> set (run (Seq [
     Group ''url'' (OneOrMore (\<lambda>c. \<not> is_space c)),
     Lit '' HTTP/'',
     OneOrMore (\<lambda>c. c \<noteq> CHR ''"''),
     Lit ''" '',
     Group ''status'' (Exactly 3 is_digit),
     Lit '' '',
     Group ''size'' (Alt (OneOrMore is_digit) (Lit ''-'')),
     EndAnchor]) (b6, t6, g5))\<close>
    by (elim seq_Lit_E) blast
  from 6 obtain u t7 b7 g7 where u: "t6 = u @ t7" "u \<noteq> []" "list_all (\<lambda>c. \<not> is_space c) u"
    and 7: \<open>x \<in> set (run (Seq [
     Lit '' HTTP/'',
     OneOrMore (\<lambda>c. c \<noteq> CHR ''"''),
     Lit ''" '',
     Group ''status'' (Exactly 3 is_digit),
     Lit '' '',
     Group ''size'' (Alt (OneOrMore is_digit) (Lit ''-'')),
     EndAnchor]) (b7, t7, g7))\<close>
    by (elim seq_Group_Plus_E) blast
  from 7 obtain t8 b8 where t8: \<open>t7 = '' HTTP/'' @ t8\<close>
    and 8: \<open>x \<in> set (run (Seq [
     OneOrMore (\<lambda>c. c \<noteq> CHR ''"''),
     Lit ''" '',
     Group ''status'' (Exactly 3 is_digit),
     Lit '' '',
     Group ''size'' (Alt (OneOrMore is_digit) (Lit ''-'')),
     EndAnchor]) (b8, t8, g7))\<close>
    by (elim seq_Lit_E) blast
  from 8 obtain v t9 b9 where v: "t8 = v @ t9" "v \<noteq> []" \<open>list_all (\<lambda>c. c \<noteq> CHR ''"'') v\<close>
    and 9: \<open>x \<in> set (run (Seq [
     Lit ''" '',
     Group ''status'' (Exactly 3 is_digit),
     Lit '' '',
     Group ''size'' (Alt (OneOrMore is_digit) (Lit ''-'')),
     EndAnchor]) (b9, t9, g7))\<close>
    by (elim seq_Plus_E) blast
  from 9 obtain t10 b10 where t10: \<open>t9 = ''" '' @ t10\<close>
    and 10: \<open>x \<in> set (run (Seq [
     Group ''status'' (Exactly 3 is_digit),
     Lit '' '',
     Group ''size'' (Alt (OneOrMore is_digit) (Lit ''-'')),
     EndAnchor]) (b10, t10, g7))\<close>
    by (elim seq_Lit_E) blast
  from 10 obtain st t11 b11 g11 where st: "t10 = st @ t11" "length st = 3" "list_all is_digit st"
    and 11: \<open>x \<in> set (run (Seq [
     Lit '' '',
     Group ''size'' (Alt (OneOrMore is_digit) (Lit ''-'')),
     EndAnchor]) (b11, t11, g11))\<close>
    by (elim seq_Group_Exactly_E) blast
  from 11 obtain t12 b12 where t12: \<open>t11 = '' '' @ t12\<close>
    and 12: \<open>x \<in> set (run (Seq [
     Group ''size'' (Alt (OneOrMore is_digit) (Lit ''-'')),
     EndAnchor]) (b12, t12, g11))\<close>
    by (elim seq_Lit_E) blast
  from 12 obtain sz e where sz: "t12 = sz @ e" "digits sz \<or> sz = ''-''" "e = [] \<or> e = [newline]"
    by (rule seq_size_end_E)
  have "fields_ok ts m u v st sz"
    using ts m u v st sz by (simp add: fields_ok_def request_ok_def)
  moreover have "line = log_line ip ts m u v st sz @ e"
    unfolding log_line_def ip(1) t2 ts(1) t4 m(1) t6 u(1) t8 v(1) t10 st(1) t12 sz(1) by simp
  ultimately show ?thesis
    using ip(2) sz(3) by blast
qed

subsection \<open>What \<open>match\<close> and \<open>parse_log_line\<close> return\<close>

lemma match_groupdict_grammar:
  assumes "is_client_address ip" "fields_ok ts m target ver st sz" "e = [] \<or> e = [newline]"
  shows "match_groupdict log_pattern (log_line ip ts m target ver st sz @ e) =
         Some (groupdict ip ts m target st sz)"
  by (simp add: match_groupdict_def run_log_pattern_complete[OF assms])

lemma match_groupdict_SomeD:
  assumes "match_groupdict log_pattern line = Some g"
  shows "\<exists>ip ts m target ver st sz e.
           is_client_address ip \<and> fields_ok ts m target ver st sz \<and> (e = [] \<or> e = [newline]) \<and>
           line = log_line ip ts m target ver st sz @ e \<and> g = groupdict ip ts m target st sz"
proof -
  from assms obtain x xs where x: "run log_pattern ([], line, []) = x # xs"
    by (auto simp: match_groupdict_def split: list.splits)
  then have "x \<in> set (run log_pattern ([], line, []))"
    by simp
  from run_log_pattern_sound[OF this] obtain ip ts m target ver st sz e where
    ok: "is_client_address ip" "fields_ok ts m target ver st sz" "e = [] \<or> e = [newline]"
    and line: "line = log_line ip ts m target ver st sz @ e"
    by blast
  from match_groupdict_grammar[OF ok] assms line have "g = groupdict ip ts m target st sz"
    by simp
  with ok line show ?thesis by blast
qed

lemma match_groupdict_None_iff:
  "match_groupdict log_pattern line = None \<longleftrightarrow>
     \<not> (\<exists>ip ts m target ver st sz e.
           is_client_address ip \<and> fields_ok ts m target ver st sz \<and> (e = [] \<or> e = [newline]) \<and>
           line = log_line ip ts m target ver st sz @ e)"
proof (cases "match_groupdict log_pattern line")
  case None
  then show ?thesis
    using match_groupdict_grammar by fastforce
next
  case (Some g)
  from match_groupdict_SomeD[OF Some] have
    "\<exists>ip ts m target ver st sz e.
       is_client_address ip \<and> fields_ok ts m target ver st sz \<and> (e = [] \<or> e = [newline]) \<and>
       line = log_line ip ts m target ver st sz @ e"
    by blast
  with Some show ?thesis by simp
qed

lemma parse_log_line_no_match:
  "match_groupdict log_pattern line = None \<Longrightarrow> parse_log_line cbh line = Inr None"
  by (simp add: parse_log_line_def)

lemma parse_log_line_grammar:
  assumes "is_client_address ip" "fields_ok ts m target ver st sz" "e = [] \<or> e = [newline]"
  shows "parse_log_line cbh (log_line ip ts m target ver st sz @ e) =
         (case urlparse cbh target of
            Inl err \<Rightarrow> Inl err
          | Inr r \<Rightarrow> Inr (Some (parsed_record ip ts m (path r) st sz (query r))))"
  by (simp add: parse_log_line_def match_groupdict_grammar[OF assms] groupdict_def
      parsed_record_def split: sum.splits)

lemma parse_log_line_None_iff:
  "parse_log_line cbh line = Inr None \<longleftrightarrow> match_groupdict log_pattern line = None"
proof (cases "match_groupdict log_pattern line")
  case None
  then show ?thesis by (simp add: parse_log_line_def)
next
  case (Some g)
  from match_groupdict_SomeD[OF Some] obtain ip ts m target ver st sz e where
    ok: "is_client_address ip" "fields_ok ts m target ver st sz" "e = [] \<or> e = [newline]"
    and line: "line = log_line ip ts m target ver st sz @ e"
    by blast
  show ?thesis
    using Some unfolding line parse_log_line_grammar[OF ok]
    by (simp split: sum.splits)
qed

lemma parse_log_line_SomeD:
  assumes "parse_log_line cbh line = Inr (Some d)"
  shows "\<exists>ip ts m target ver st sz e r.
           is_client_address ip \<and> fields_ok ts m target ver st sz \<and> (e = [] \<or> e = [newline]) \<and>
           line = log_line ip ts m target ver st sz @ e \<and> urlparse cbh target = Inr r \<and>
           d = parsed_record ip ts m (path r) st sz (query r)"
proof -
  from assms obtain g where g: "match_groupdict log_pattern line = Some g"
    by (cases "match_groupdict log_pattern line") (auto simp: parse_log_line_def)
  from match_groupdict_SomeD[OF g] obtain ip ts m target ver st sz e where
    ok: "is_client_address ip" "fields_ok ts m target ver st sz" "e = [] \<or> e = [newline]"
    and line: "line = log_line ip ts m target ver st sz @ e"
    by blast
  from assms obtain r where "urlparse cbh target = Inr r"
    "d = parsed_record ip ts m (path r) st sz (query r)"
    unfolding line parse_log_line_grammar[OF ok] by (auto split: sum.splits)
  with ok line show ?thesis by blast
qed

subsection \<open>Plain request targets\<close>

lemma split_first_question:
  "split_first CHR ''?'' t = (before_first_question t, after_first_question t)"
  by (simp add: split_first_def before_first_question_def after_first_question_def)

lemma before_first_question_all: "CHR ''?'' \<notin> set t \<Longrightarrow> before_first_question t = t"
  by (auto simp: before_first_question_def takeWhile_eq_all_conv)

lemma after_first_question_none:
  assumes "CHR ''?'' \<notin> set t"
  shows "after_first_question t = []"
proof -
  have eq: "dropWhile (\<lambda>c. c \<noteq> CHR ''?'') t = []"
    using assms by (auto simp: dropWhile_eq_Nil_conv)
  show ?thesis
    unfolding after_first_question_def eq by simp
qed

lemma urlsplit_plain:
  assumes "plain_target t" "list_all (\<lambda>c. \<not> is_space c) t"
  shows "urlsplit cbh t =
         Inr \<lparr>scheme = '''', netloc = '''', path = before_first_question t, params = '''',
              query = after_first_question t, fragment = ''''\<rparr>"
proof -
  from assms(1) obtain t' where t: "t = CHR ''/'' # t'"
    by (cases t) (auto simp: plain_target_def)
  have 1: "lstrip_c0_control_or_space t = t"
    by (simp add: lstrip_c0_control_or_space_def t)
  have "\<not> is_space c \<Longrightarrow> c \<notin> {CHR 0x09, CHR 0x0D, CHR 0x0A}" for c
    by (auto simp: is_space_def)
  with assms(2) have 2: "remove_unsafe_bytes t = t"
    by (auto simp: remove_unsafe_bytes_def list_all_iff intro!: filter_True)
  have 3: "split_scheme t = ('''', t)"
    by (simp add: split_scheme_def t is_ascii_alpha_def split: option.splits)
  have 4: "take 2 t \<noteq> ''//''" "CHR ''#'' \<notin> set t"
    using assms(1) by (simp_all add: plain_target_def)
  show ?thesis
    using 4
    by (simp add: urlsplit_def 1 2 3 split_first_question before_first_question_all
        after_first_question_none)
qed

lemma urlparse_plain:
  assumes "plain_target t" "list_all (\<lambda>c. \<not> is_space c) t"
  shows "urlparse cbh t =
         Inr \<lparr>scheme = '''', netloc = '''', path = before_first_question t, params = '''',
              query = after_first_question t, fragment = ''''\<rparr>"
  using assms(1) by (simp add: urlparse_def urlsplit_plain[OF assms] plain_target_def)

subsection \<open>The collector\<close>

lemma parsed_record_nonempty: "parse_log_line cbh line = Inr (Some d) \<Longrightarrow> d \<noteq> []"
  by (auto dest!: parse_log_line_SomeD simp: parsed_record_def)

lemma matches_iff_parse: "matches line \<longleftrightarrow> parse_log_line cbh line \<noteq> Inr None"
  by (simp add: matches_def parse_log_line_None_iff)

lemma read_log_file_loop_append:
  "read_log_file_loop cbh acc (xs @ ys) =
     (case read_log_file_loop cbh acc xs of
        Inl err \<Rightarrow> Inl err
      | Inr acc' \<Rightarrow> read_log_file_loop cbh acc' ys)"
proof (induction xs arbitrary: acc)
  case Nil
  then show ?case by simp
next
  case (Cons x xs)
  then show ?case
    by (simp split: sum.splits option.splits)
qed

lemma read_log_file_loop_skip:
  assumes "parse_log_line cbh line = Inr None"
  shows "read_log_file_loop cbh acc (xs @ line # ys) = read_log_file_loop cbh acc (xs @ ys)"
  using assms by (simp add: read_log_file_loop_append split: sum.splits)

lemma read_log_file_loop_rows:
  assumes "read_log_file_loop cbh acc flines = Inr rows"
  shows "\<exists>new. rows = acc @ new \<and>
           map (parse_log_line cbh) (filter matches flines) = map (\<lambda>d. Inr (Some d)) new"
  using assms
proof (induction flines arbitrary: acc)
  case Nil
  then show ?case by simp
next
  case (Cons line flines)
  show ?case
  proof (cases "parse_log_line cbh line")
    case (Inl err)
    with Cons.prems show ?thesis by simp
  next
    case (Inr parsed_log)
    show ?thesis
    proof (cases parsed_log)
      case None
      with Inr have "\<not> matches line"
        by (simp add: matches_iff_parse[of line cbh])
      moreover from Cons.prems Inr None have "read_log_file_loop cbh acc flines = Inr rows"
        by simp
      ultimately show ?thesis
        using Cons.IH by simp
    next
      case (Some d)
      with Inr have d: "parse_log_line cbh line = Inr (Some d)" by simp
      then have "d \<noteq> []" by (rule parsed_record_nonempty)
      with Cons.prems d have "read_log_file_loop cbh (acc @ [d]) flines = Inr rows"
        by simp
      from Cons.IH[OF this] obtain new where new: "rows = (acc @ [d]) @ new"
        "map (parse_log_line cbh) (filter matches flines) = map (\<lambda>d. Inr (Some d)) new"
        by blast
      moreover have "matches line"
        using d by (simp add: matches_iff_parse[of line cbh])
      ultimately have "rows = acc @ (d # new) \<and>
        map (parse_log_line cbh) (filter matches (line # flines)) = map (\<lambda>d. Inr (Some d)) (d # new)"
        using d by simp
      then show ?thesis by blast
    qed
  qed
qed

section \<open>Facts about the data frame\<close>





















section \<open>Lines of the grammar\<close>

text \<open>
  C1, as the code has it: for a line of the grammar (with or without its line break),
  \<open>parse_log_line\<close> returns what \<open>urlparse\<close> decides for the request target; where
  \<open>urlparse\<close> returns, the result is the record with all seven fields, the path and the query
  being the components \<open>urlparse\<close> gives. For a plain target (one leading \<open>/\<close>, no \<open>#\<close>, no
  \<open>;\<close> before the first \<open>?\<close>) these are the text before the first \<open>?\<close> and everything
  after it.
\<close>

theorem parse_grammar_line:
  assumes "is_client_address ip" "fields_ok ts m target ver st sz" "e = [] \<or> e = [newline]"
  shows "parse_log_line cbh (log_line ip ts m target ver st sz @ e) =
           (case urlparse cbh target of
              Inl err \<Rightarrow> Inl err
            | Inr r \<Rightarrow> Inr (Some (parsed_record ip ts m (path r) st sz (query r))))
         \<and> (plain_target target \<longrightarrow>
              parse_log_line cbh (log_line ip ts m target ver st sz @ e) =
                Inr (Some (parsed_record ip ts m (before_first_question target) st sz
                            (after_first_question target))))"
proof -
  from assms(2) have "list_all (\<lambda>c. \<not> is_space c) target"
    by (simp add: fields_ok_def request_ok_def)
  then show ?thesis
    by (simp add: parse_log_line_grammar[OF assms] urlparse_plain)
qed

theorem parse_grammar_line_witness:
  "is_client_address ''203.0.113.5''
   \<and> fields_ok ''10/Oct/2023:13:55:36 +0000'' ''GET'' ''/index.html?id=42'' ''1.1'' ''200'' ''512''
   \<and> plain_target ''/index.html?id=42''
   \<and> parse_log_line accept_all
        (log_line ''203.0.113.5'' ''10/Oct/2023:13:55:36 +0000'' ''GET'' ''/index.html?id=42''
           ''1.1'' ''200'' ''512'' @ [newline]) =
      Inr (Some (parsed_record ''203.0.113.5'' ''10/Oct/2023:13:55:36 +0000'' ''GET''
                  (before_first_question ''/index.html?id=42'') ''200'' ''512''
                  (after_first_question ''/index.html?id=42'')))"
proof -
  have a: "is_client_address ''203.0.113.5''"
    by code_simp
  have f: "fields_ok ''10/Oct/2023:13:55:36 +0000'' ''GET'' ''/index.html?id=42'' ''1.1'' ''200'' ''512''"
    by code_simp
  have p: "plain_target ''/index.html?id=42''"
    by code_simp
  from parse_grammar_line[OF a f, of "[newline]" accept_all] a f p show ?thesis
    by blast
qed

theorem split_not_at_first_question:
  \<open>is_client_address ''203.0.113.5''
   \<and> fields_ok ''10/Oct/2023:13:55:36 +0000'' ''GET'' ''/app;jsessionid=1?x=2#top'' ''1.1'' ''200'' ''512''
   \<and> parse_log_line accept_all
        ''203.0.113.5 - - [10/Oct/2023:13:55:36 +0000] "GET /app;jsessionid=1?x=2#top HTTP/1.1" 200 512''
      = Inr (Some (parsed_record ''203.0.113.5'' ''10/Oct/2023:13:55:36 +0000'' ''GET''
                    ''/app'' ''200'' ''512'' ''x=2''))
   \<and> before_first_question ''/app;jsessionid=1?x=2#top'' = ''/app;jsessionid=1''
   \<and> after_first_question ''/app;jsessionid=1?x=2#top'' = ''x=2#top''
   \<and> parse_log_line accept_all
        ''203.0.113.5 - - [10/Oct/2023:13:55:36 +0000] "GET /app;jsessionid=1?x=2#top HTTP/1.1" 200 512''
      \<noteq> Inr (Some (parsed_record ''203.0.113.5'' ''10/Oct/2023:13:55:36 +0000'' ''GET''
                    (before_first_question ''/app;jsessionid=1?x=2#top'') ''200'' ''512''
                    (after_first_question ''/app;jsessionid=1?x=2#top'')))\<close>
  by code_simp

text \<open>
  A line of the grammar on which \<open>urlparse\<close> raises: the network location of the target has
  an opening square bracket and no closing one.
\<close>

lemma grammar_line_raises:
  \<open>fields_ok ''10/Oct/2023:13:55:36 +0000'' ''GET'' ''//[x'' ''1.1'' ''200'' ''512''
   \<and> parse_log_line cbh
        ''203.0.113.5 - - [10/Oct/2023:13:55:36 +0000] "GET //[x HTTP/1.1" 200 512''
      = Inl ValueError\<close>
  by code_simp

section \<open>Lines outside the grammar\<close>

lemma quotes_in_log_line:
  \<open>2 \<le> length (filter (\<lambda>c. c = CHR ''"'') (log_line ip ts m target ver st sz @ e))\<close>
  by (simp add: log_line_def)

text \<open>
  C2: a line that is not of the form of the grammar (the fields in order, each of its class,
  the literal separators between them, at most a line break after the size) gives \<open>None\<close>
  and no exception, and the rows of a file are the same with or without it. Such are a line
  whose status code is a digit run of another length than three, and a line with fewer than
  two double quotes.
\<close>

theorem no_match_no_row:
  "(\<not> (\<exists>ip ts m target ver st sz e.
          is_client_address ip \<and> fields_ok ts m target ver st sz \<and> (e = [] \<or> e = [newline]) \<and>
          line = log_line ip ts m target ver st sz @ e)
      \<longrightarrow> parse_log_line cbh line = Inr None
          \<and> read_log_file cbh (before @ line # after) = read_log_file cbh (before @ after))
   \<and> (is_client_address ip \<and> request_ok ts m target ver \<and> list_all is_digit st \<and> length st \<noteq> 3
      \<longrightarrow> parse_log_line cbh (log_line ip ts m target ver st sz @ e) = Inr None)
   \<and> (length (filter (\<lambda>c. c = CHR 0x22) line) < 2 \<longrightarrow> parse_log_line cbh line = Inr None)"
proof (intro conjI impI)
  assume "\<not> (\<exists>ip ts m target ver st sz e.
          is_client_address ip \<and> fields_ok ts m target ver st sz \<and> (e = [] \<or> e = [newline]) \<and>
          line = log_line ip ts m target ver st sz @ e)"
  then have "match_groupdict log_pattern line = None"
    by (simp only: match_groupdict_None_iff not_False_eq_True)
  then show none: "parse_log_line cbh line = Inr None"
    by (rule parse_log_line_no_match)
  show "read_log_file cbh (before @ line # after) = read_log_file cbh (before @ after)"
    unfolding read_log_file_def by (rule read_log_file_loop_skip[OF none])
next
  assume a: "is_client_address ip \<and> request_ok ts m target ver \<and> list_all is_digit st \<and> length st \<noteq> 3"
  then have "run log_pattern ([], log_line ip ts m target ver st sz @ e, []) = []"
    unfolding log_line_def
    using run_up_to_status[of ip ts m target ver "st @ '' '' @ sz @ e"]
      run_status_width[of st _ "sz @ e"]
    by simp
  then have "match_groupdict log_pattern (log_line ip ts m target ver st sz @ e) = None"
    by (simp add: match_groupdict_def)
  then show "parse_log_line cbh (log_line ip ts m target ver st sz @ e) = Inr None"
    by (rule parse_log_line_no_match)
next
  assume q: "length (filter (\<lambda>c. c = CHR 0x22) line) < 2"
  have "match_groupdict log_pattern line = None"
  proof (rule ccontr)
    assume "match_groupdict log_pattern line \<noteq> None"
    then obtain g where "match_groupdict log_pattern line = Some g" by blast
    from match_groupdict_SomeD[OF this] q quotes_in_log_line show False
      by (metis not_less)
  qed
  then show "parse_log_line cbh line = Inr None"
    by (rule parse_log_line_no_match)
qed

theorem no_match_no_row_witness:
  \<open>\<not> (\<exists>ip ts m target ver st sz e.
          is_client_address ip \<and> fields_ok ts m target ver st sz \<and> (e = [] \<or> e = [newline]) \<and>
          malformed_line = log_line ip ts m target ver st sz @ e)
   \<and> parse_log_line accept_all malformed_line = Inr None
   \<and> read_log_file accept_all ([example_line] @ malformed_line # [example_line]) =
       read_log_file accept_all ([example_line] @ [example_line])
   \<and> is_client_address ''203.0.113.5''
   \<and> request_ok ''10/Oct/2023:13:55:36 +0000'' ''GET'' ''/index.html?id=42'' ''1.1''
   \<and> list_all is_digit ''2000'' \<and> length ''2000'' \<noteq> 3
   \<and> parse_log_line accept_all
        (log_line ''203.0.113.5'' ''10/Oct/2023:13:55:36 +0000'' ''GET'' ''/index.html?id=42''
           ''1.1'' ''2000'' ''512'' @ []) = Inr None
   \<and> length (filter (\<lambda>c. c = CHR 0x22)
         ''203.0.113.5 - - [10/Oct/2023:13:55:36 +0000] "GET /index.html?id=42 HTTP/1.1 200 512'') < 2
   \<and> parse_log_line accept_all
        ''203.0.113.5 - - [10/Oct/2023:13:55:36 +0000] "GET /index.html?id=42 HTTP/1.1 200 512''
       = Inr None\<close>
proof -
  have "match_groupdict log_pattern malformed_line = None"
    by code_simp
  then have h1: "\<not> (\<exists>ip ts m target ver st sz e.
          is_client_address ip \<and> fields_ok ts m target ver st sz \<and> (e = [] \<or> e = [newline]) \<and>
          malformed_line = log_line ip ts m target ver st sz @ e)"
    by (rule iffD1[OF match_groupdict_None_iff])
  have h2: "is_client_address ''203.0.113.5'' \<and>
      request_ok ''10/Oct/2023:13:55:36 +0000'' ''GET'' ''/index.html?id=42'' ''1.1'' \<and>
      list_all is_digit ''2000'' \<and> length ''2000'' \<noteq> 3"
    by code_simp
  have h3: \<open>length (filter (\<lambda>c. c = CHR 0x22)
         ''203.0.113.5 - - [10/Oct/2023:13:55:36 +0000] "GET /index.html?id=42 HTTP/1.1 200 512'') < 2\<close>
    by code_simp
  from no_match_no_row[of malformed_line accept_all "[example_line]" "[example_line]"
      "''203.0.113.5''" "''10/Oct/2023:13:55:36 +0000''" "''GET''" "''/index.html?id=42''" "''1.1''"
      "''2000''" "''512''" "[]"] h1 h2
  have a: "parse_log_line accept_all malformed_line = Inr None"
    "read_log_file accept_all ([example_line] @ malformed_line # [example_line]) =
       read_log_file accept_all ([example_line] @ [example_line])"
    "parse_log_line accept_all
        (log_line ''203.0.113.5'' ''10/Oct/2023:13:55:36 +0000'' ''GET'' ''/index.html?id=42''
           ''1.1'' ''2000'' ''512'' @ []) = Inr None"
    by blast+
  from no_match_no_row[of
      \<open>''203.0.113.5 - - [10/Oct/2023:13:55:36 +0000] "GET /index.html?id=42 HTTP/1.1 200 512''\<close>
      accept_all] h3
  have b: \<open>parse_log_line accept_all
        ''203.0.113.5 - - [10/Oct/2023:13:55:36 +0000] "GET /index.html?id=42 HTTP/1.1 200 512''
       = Inr None\<close>
    by blast
  from h1 h2 h3 a b show ?thesis
    by blast
qed

section \<open>Order of the rows\<close>

text \<open>
  C4: the rows that \<open>read_log_file\<close> returns are the parsed records of the matching lines, in the
  order of the file: there are as many rows as matching lines, and row \<open>i\<close> is what
  \<open>parse_log_line\<close> returns for the \<open>i\<close>-th matching line.
\<close>

theorem collector_preserves_order:
  assumes "read_log_file cbh file = Inr rows"
  shows "map (parse_log_line cbh) (filter matches file) = map (\<lambda>d. Inr (Some d)) rows
         \<and> length rows = length (filter matches file)
         \<and> (\<forall>i < length rows. parse_log_line cbh (filter matches file ! i) = Inr (Some (rows ! i)))"
proof -
  from read_log_file_loop_rows[OF assms[unfolded read_log_file_def]]
  have eq: "map (parse_log_line cbh) (filter matches file) = map (\<lambda>d. Inr (Some d)) rows"
    by simp
  then have len: "length rows = length (filter matches file)"
    by (metis length_map)
  have "parse_log_line cbh (filter matches file ! i) = Inr (Some (rows ! i))" if "i < length rows" for i
  proof -
    have "map (parse_log_line cbh) (filter matches file) ! i = map (\<lambda>d. Inr (Some d)) rows ! i"
      by (simp only: eq)
    with that len show ?thesis by simp
  qed
  with eq len show ?thesis by blast
qed

theorem collector_preserves_order_witness:
  "read_log_file accept_all [malformed_line, example_line, malformed_line] = Inr [example_dict]
   \<and> map (parse_log_line accept_all) (filter matches [malformed_line, example_line, malformed_line])
        = map (\<lambda>d. Inr (Some d)) [example_dict]
   \<and> length [example_dict] = length (filter matches [malformed_line, example_line, malformed_line])
   \<and> parse_log_line accept_all (filter matches [malformed_line, example_line, malformed_line] ! 0)
        = Inr (Some ([example_dict] ! 0))"
proof -
  have h: "read_log_file accept_all [malformed_line, example_line, malformed_line] = Inr [example_dict]"
    by code_simp
  from collector_preserves_order[OF h] h show ?thesis
    by simp
qed

section \<open>The size column\<close>



section \<open>The time stamp column\<close>




section \<open>The end of the line\<close>

text \<open>
  C7, as the code has it: a line of the grammar followed by further characters gives no
  match, unless what follows is a single line break. The size field ends where the
  characters that follow begin: after a size of digits they do not start with a digit.
\<close>

theorem trailing_characters_no_match:
  assumes "is_client_address ip" "fields_ok ts m target ver st sz"
    and "t \<noteq> []" "t \<noteq> [newline]" "sz = ''-'' \<or> \<not> is_digit (hd t)"
  shows "parse_log_line cbh (log_line ip ts m target ver st sz @ t) = Inr None"
proof -
  from assms(2) have req: "request_ok ts m target ver" and st: "length st = 3" "list_all is_digit st"
    and sz: "digits sz \<or> sz = ''-''"
    by (simp_all add: fields_ok_def)
  have "run log_pattern ([], log_line ip ts m target ver st sz @ t, []) = []"
    unfolding log_line_def
    using run_up_to_status[OF assms(1) req, of "st @ '' '' @ sz @ t"]
      run_status[OF st, of _ "sz @ t"] run_size_trailing[OF sz assms(3-5)]
    by simp
  then have "match_groupdict log_pattern (log_line ip ts m target ver st sz @ t) = None"
    by (simp add: match_groupdict_def)
  then show ?thesis
    by (rule parse_log_line_no_match)
qed

theorem trailing_characters_no_match_witness:
  "is_client_address ''203.0.113.5''
   \<and> fields_ok ''10/Oct/2023:13:55:36 +0000'' ''GET'' ''/index.html?id=42'' ''1.1'' ''200'' ''512''
   \<and> '' extra'' \<noteq> [] \<and> '' extra'' \<noteq> [newline] \<and> \<not> is_digit (hd '' extra'')
   \<and> parse_log_line accept_all
        (log_line ''203.0.113.5'' ''10/Oct/2023:13:55:36 +0000'' ''GET'' ''/index.html?id=42''
           ''1.1'' ''200'' ''512'' @ '' extra'') = Inr None"
proof -
  have a: "is_client_address ''203.0.113.5''"
    by code_simp
  have f: "fields_ok ''10/Oct/2023:13:55:36 +0000'' ''GET'' ''/index.html?id=42'' ''1.1'' ''200'' ''512''"
    by code_simp
  have t: "'' extra'' \<noteq> []" "'' extra'' \<noteq> [newline]" "''512'' = ''-'' \<or> \<not> is_digit (hd '' extra'')"
    by simp_all
  from trailing_characters_no_match[OF a f t, of accept_all] a f t show ?thesis
    by blast
qed

theorem trailing_newline_still_matches:
  "example_line = log_line ''203.0.113.5'' ''10/Oct/2023:13:55:36 +0000'' ''GET''
                    ''/index.html?id=42'' ''1.1'' ''200'' ''512''
   \<and> parse_log_line accept_all (example_line @ [newline]) = Inr (Some example_dict)"
  by code_simp

section \<open>The client address\<close>

text \<open>
  C8, as the code has it: the client address of an accepted line is the text before the first
  space of the line, and it is \<open>NULL\<close> or four runs of decimal digits separated by dots (of
  any length and value, so not always an IPv4 address); a line whose first field is
  anything else gives no match.
\<close>

theorem accepted_client_address:
  "(parse_log_line cbh line = Inr (Some d)
      \<longrightarrow> is_client_address (first_field line) \<and> map_of d ''ip'' = Some (first_field line))
   \<and> (\<not> is_client_address (first_field line) \<longrightarrow> parse_log_line cbh line = Inr None)"
proof (intro conjI impI)
  assume "parse_log_line cbh line = Inr (Some d)"
  from parse_log_line_SomeD[OF this] obtain ip ts m target ver st sz e r where
    ip: "is_client_address ip" and "fields_ok ts m target ver st sz" and "e = [] \<or> e = [newline]"
    and line: "line = log_line ip ts m target ver st sz @ e" and "urlparse cbh target = Inr r"
    and d: "d = parsed_record ip ts m (path r) st sz (query r)"
    by (elim exE conjE)
  show "is_client_address (first_field line)"
    unfolding line first_field_log_line[OF ip] by (rule ip)
  show "map_of d ''ip'' = Some (first_field line)"
    unfolding line first_field_log_line[OF ip] d by (simp add: parsed_record_def)
next
  assume no: "\<not> is_client_address (first_field line)"
  have "match_groupdict log_pattern line = None"
  proof (rule ccontr)
    assume "match_groupdict log_pattern line \<noteq> None"
    then obtain g where "match_groupdict log_pattern line = Some g" by blast
    from match_groupdict_SomeD[OF this] obtain ip ts m target ver st sz e where
      ip: "is_client_address ip" and "fields_ok ts m target ver st sz" and "e = [] \<or> e = [newline]"
      and line: "line = log_line ip ts m target ver st sz @ e"
      and "g = groupdict ip ts m target st sz"
      by (elim exE conjE)
    from no ip show False
      unfolding line first_field_log_line[OF ip] by simp
  qed
  then show "parse_log_line cbh line = Inr None"
    by (rule parse_log_line_no_match)
qed

theorem accepted_client_address_witness:
  "parse_log_line accept_all example_line = Inr (Some example_dict)
   \<and> is_client_address (first_field example_line)
   \<and> map_of example_dict ''ip'' = Some (first_field example_line)
   \<and> \<not> is_client_address (first_field malformed_line)
   \<and> parse_log_line accept_all malformed_line = Inr None"
proof -
  have h1: "parse_log_line accept_all example_line = Inr (Some example_dict)"
    by code_simp
  have h2: "\<not> is_client_address (first_field malformed_line)"
    by code_simp
  from accepted_client_address[of accept_all example_line example_dict] h1
  have a: "is_client_address (first_field example_line)"
    "map_of example_dict ''ip'' = Some (first_field example_line)"
    by blast+
  from accepted_client_address[of accept_all malformed_line] h2
  have b: "parse_log_line accept_all malformed_line = Inr None"
    by blast
  from h1 h2 a b show ?thesis by blast
qed

theorem accepts_out_of_range_address:
  \<open>parse_log_line accept_all
     ''999.999.999.999 - - [10/Oct/2023:13:55:36 +0000] "GET / HTTP/1.1" 200 5''
     = Inr (Some (parsed_record ''999.999.999.999'' ''10/Oct/2023:13:55:36 +0000'' ''GET'' ''/''
                   ''200'' ''5'' ''''))
   \<and> \<not> is_ipv4_literal ''999.999.999.999''
   \<and> ''999.999.999.999'' \<noteq> ''NULL''\<close>
  by code_simp

section \<open>The columns that the coercions leave alone\<close>



section \<open>The line break at the end\<close>

lemma last_log_line:
  assumes "fields_ok ts m target ver st sz"
  shows "last (log_line ip ts m target ver st sz) \<noteq> newline"
proof -
  from assms have sz: "digits sz \<or> sz = ''-''"
    by (simp add: fields_ok_def)
  then have ne: "sz \<noteq> []"
    by (auto simp: digits_def)
  then have "last (log_line ip ts m target ver st sz) = last sz"
    by (simp add: log_line_def)
  moreover have "last sz \<noteq> newline"
  proof
    assume eq: "last sz = newline"
    from sz show False
    proof
      assume "digits sz"
      then have "is_digit (last sz)"
        using ne by (simp add: digits_def list_all_iff)
      with eq show False by simp
    next
      assume "sz = ''-''"
      with eq show False by (simp add: newline_def)
    qed
  qed
  ultimately show ?thesis by simp
qed

lemma match_groupdict_newline:
  assumes "s = [] \<or> last s \<noteq> newline"
  shows "match_groupdict log_pattern (s @ [newline]) = match_groupdict log_pattern s"
proof (cases "match_groupdict log_pattern s")
  case (Some g)
  from match_groupdict_SomeD[OF Some] obtain ip ts m target ver st sz e where
    ok: "is_client_address ip" "fields_ok ts m target ver st sz" and e: "e = [] \<or> e = [newline]"
    and s: "s = log_line ip ts m target ver st sz @ e" and g: "g = groupdict ip ts m target st sz"
    by blast
  from assms s e have "e = []" by auto
  with s have "s @ [newline] = log_line ip ts m target ver st sz @ [newline]"
    by simp
  with match_groupdict_grammar[OF ok, of "[newline]"] Some g show ?thesis
    by simp
next
  case None
  have "match_groupdict log_pattern (s @ [newline]) = None"
  proof (rule ccontr)
    assume "match_groupdict log_pattern (s @ [newline]) \<noteq> None"
    then obtain g where "match_groupdict log_pattern (s @ [newline]) = Some g" by blast
    from match_groupdict_SomeD[OF this] obtain ip ts m target ver st sz e where
      ok: "is_client_address ip" "fields_ok ts m target ver st sz" and e: "e = [] \<or> e = [newline]"
      and s: "s @ [newline] = log_line ip ts m target ver st sz @ e"
      by blast
    from e show False
    proof
      assume "e = []"
      with s have "last (log_line ip ts m target ver st sz) = newline"
        by (metis append_Nil2 last_snoc)
      with last_log_line[OF ok(2)] show False by simp
    next
      assume "e = [newline]"
      with s have "s = log_line ip ts m target ver st sz @ []" by simp
      with match_groupdict_grammar[OF ok, of "[]"] None show False by simp
    qed
  qed
  with None show ?thesis by simp
qed

text \<open>
  C10, as the code has it: for every string that does not itself end in a line break,
  \<open>parse_log_line\<close> gives the same result with and without one line break appended.
\<close>

theorem single_newline_tolerated:
  assumes "s = [] \<or> last s \<noteq> newline"
  shows "parse_log_line cbh (s @ [newline]) = parse_log_line cbh s"
  by (simp add: parse_log_line_def match_groupdict_newline[OF assms])

theorem single_newline_tolerated_witness:
  "last example_line \<noteq> newline
   \<and> parse_log_line accept_all (example_line @ [newline]) = parse_log_line accept_all example_line"
proof -
  have h: "example_line = [] \<or> last example_line \<noteq> newline"
    by code_simp
  have h': "last example_line \<noteq> newline"
    by code_simp
  from single_newline_tolerated[OF h, of accept_all] h' show ?thesis
    by blast
qed

theorem second_newline_rejected:
  "parse_log_line accept_all (example_line @ [newline]) = Inr (Some example_dict)
   \<and> parse_log_line accept_all ((example_line @ [newline]) @ [newline]) = Inr None"
  by code_simp

section \<open>The worked example\<close>

lemma clean_example_dict:
  "clean_parsed_logs strptime [example_dict] =
     (case strptime ''10/Oct/2023:13:55:36 +0000'' of
        None \<Rightarrow> Inl ValueError
      | Some t \<Rightarrow>
          Inr [(''ip'', [Str ''203.0.113.5'']), (''timestamp'', [Moment t]),
               (''method'', [Str ''GET'']), (''url'', [Str ''/index.html'']),
               (''status'', [Str ''200'']), (''size'', [Num 512]),
               (''query_parameters'', [Str ''id=42''])])"
  by (simp add: clean_parsed_logs_def example_dict_def DataFrame_def first_seen_def getitem_def
      setitem_def replace_def fillna_def select_columns_def final_columns_def is_digit_def
      decimal_def digit_value_def split: option.splits)

lemma read_example_lines:
  "read_log_file cbh [example_line, malformed_line] = Inr [example_dict]"
  by code_simp

text \<open>
  C3: the example line of the specification parses to the dictionary with the client address
  \<open>203.0.113.5\<close>, the time stamp text \<open>10/Oct/2023:13:55:36 +0000\<close>, the method \<open>GET\<close>, the
  path \<open>/index.html\<close>, the query \<open>id=42\<close>, the status \<open>200\<close> and the size \<open>512\<close>; the
  malformed line yields no match and no row. In the row set of the two lines the time stamp
  is the moment the format gives for that text and the size is the number 512.
\<close>

theorem example_line_parses:
  "parse_log_line cbh example_line = Inr (Some example_dict)
   \<and> parse_log_line cbh malformed_line = Inr None
   \<and> read_log_file cbh [malformed_line] = Inr []
   \<and> read_log_file cbh [example_line, malformed_line] = Inr [example_dict]
   \<and> row_set strptime cbh [example_line, malformed_line] =
       (case strptime ''10/Oct/2023:13:55:36 +0000'' of
          None \<Rightarrow> Inl ValueError
        | Some t \<Rightarrow>
            Inr [(''ip'', [Str ''203.0.113.5'']), (''timestamp'', [Moment t]),
                 (''method'', [Str ''GET'']), (''url'', [Str ''/index.html'']),
                 (''status'', [Str ''200'']), (''size'', [Num 512]),
                 (''query_parameters'', [Str ''id=42''])])"
proof -
  have "parse_log_line cbh example_line = Inr (Some example_dict)"
    by code_simp
  moreover have "parse_log_line cbh malformed_line = Inr None"
    by code_simp
  moreover have "read_log_file cbh [malformed_line] = Inr []"
    by code_simp
  ultimately show ?thesis
    by (simp add: row_set_def read_example_lines clean_example_dict)
qed


end
